theory Spec2Isabelle
  imports Main "HOL-Library.Word" "HOL-Library.Monad_Syntax"
begin

section \<open>The C types of vector.c\<close>

text \<open>
  \<open>size_t\<close> and \<open>long\<close> are 64-bit machine integers (LP64); \<open>short\<close> and \<open>int\<close> are the
  return types of the public functions. Arithmetic on \<open>size_t\<close> wraps around, as it does in C.
  A memory cell of type \<open>long\<close> is either initialised (\<open>Some v\<close>) or indeterminate
  (\<open>None\<close>): \<open>malloc\<close> and \<open>realloc\<close> hand out indeterminate cells.
\<close>

type_synonym size_t = "64 word"
type_synonym long = "64 word"
type_synonym short = "16 word"
type_synonym cint = "32 word"
type_synonym cell = "long option"

definition MC_VECTOR_BUFSIZE :: size_t where
  "MC_VECTOR_BUFSIZE = 10"

definition sizeof_long :: size_t where
  "sizeof_long = 8"

definition LONG_MAX :: long where
  "LONG_MAX = 0x7FFFFFFFFFFFFFFF"

definition LONG_MIN :: long where
  "LONG_MIN = 0x8000000000000000"

datatype errno_t = EINVAL | ENOBUFS | EFAULT | ENOMEM

text \<open>
  A \<open>long *\<close> is \<open>NULL\<close>, the address of the inline array \<open>stack_buf\<close> of the
  \<open>struct vector_s\<close> at some address, or the address of an array obtained from \<open>malloc\<close>.
\<close>

datatype ptr = NULL | StackBuf nat | HeapBlock nat

text \<open>\<open>struct vector_s\<close>, field by field.\<close>

record vector_s =
  count :: size_t
  capacity :: size_t
  stack_buf :: "cell list"
  heap_buf :: ptr
  data :: ptr

text \<open>The type \<open>vector\<close> is a pointer to \<open>struct vector_s\<close>; \<open>None\<close> is the null pointer.\<close>

type_synonym vector = "nat option"

section \<open>The store\<close>

text \<open>
  The store holds the allocated \<open>struct vector_s\<close> objects, the allocated arrays of
  \<open>long\<close>, the next fresh address, \<open>errno\<close>, and the outcomes of the allocation requests
  still to come (\<open>True\<close>: the request is served; an empty list: every request is served).
  A function of the program returns \<open>None\<close> where the C program has undefined behaviour
  (a null or dangling dereference, an access outside an array).
\<close>

record machine =
  structs :: "nat \<Rightarrow> vector_s option"
  blocks :: "nat \<Rightarrow> cell list option"
  brk :: nat
  errno :: "errno_t option"
  alloc_plan :: "bool list"

definition init_machine :: machine where
  "init_machine = \<lparr>structs = (\<lambda>a. None), blocks = (\<lambda>a. None), brk = 0, errno = None, alloc_plan = []\<rparr>"

definition set_errno :: "errno_t \<Rightarrow> machine \<Rightarrow> machine" where
  "set_errno e m = m\<lparr>errno := Some e\<rparr>"

definition assign :: "nat \<Rightarrow> vector_s \<Rightarrow> machine \<Rightarrow> machine" where
  "assign a s m = m\<lparr>structs := (structs m)(a := Some s)\<rparr>"

definition alloc_decide :: "machine \<Rightarrow> bool \<times> machine" where
  "alloc_decide m =
     (case alloc_plan m of
        [] \<Rightarrow> (True, m)
      | b # bs \<Rightarrow> (b, m\<lparr>alloc_plan := bs\<rparr>))"

text \<open>
  \<open>malloc (n)\<close> for an array of \<open>long\<close>: \<open>n\<close> is the size in bytes, as computed by the
  caller in \<open>size_t\<close>; the array has \<open>n div 8\<close> cells, all indeterminate.
\<close>

definition malloc :: "size_t \<Rightarrow> machine \<Rightarrow> ptr \<times> machine" where
  "malloc nbytes m =
     (let (ok, m1) = alloc_decide m in
      if ok then
        (HeapBlock (brk m1),
         m1\<lparr>blocks := (blocks m1)(brk m1 := Some (replicate (unat nbytes div 8) None)),
            brk := Suc (brk m1)\<rparr>)
      else (NULL, m1))"

text \<open>
  \<open>malloc (sizeof (struct vector_s))\<close>: the address is reserved; the object enters the
  store when the constructor has assigned its fields (its inline array starts indeterminate).
\<close>

definition malloc_struct :: "machine \<Rightarrow> vector \<times> machine" where
  "malloc_struct m =
     (let (ok, m1) = alloc_decide m in
      if ok then (Some (brk m1), m1\<lparr>brk := Suc (brk m1)\<rparr>)
      else (None, m1))"

definition fresh_stack_buf :: "cell list" where
  "fresh_stack_buf = replicate (unat MC_VECTOR_BUFSIZE) None"

text \<open>
  \<open>realloc (p, n)\<close>: with \<open>p = NULL\<close> it is \<open>malloc (n)\<close>; otherwise \<open>p\<close> must be a live
  allocated array. On success the old array is released and a new one holds its first
  cells, the rest indeterminate; on failure the old array is untouched.
\<close>

definition realloc :: "ptr \<Rightarrow> size_t \<Rightarrow> machine \<Rightarrow> (ptr \<times> machine) option" where
  "realloc p nbytes m =
     (case p of
        NULL \<Rightarrow> Some (malloc nbytes m)
      | StackBuf a \<Rightarrow> None
      | HeapBlock h \<Rightarrow>
          (case blocks m h of
             None \<Rightarrow> None
           | Some old \<Rightarrow>
               (let (ok, m1) = alloc_decide m; n = unat nbytes div 8 in
                if ok then
                  Some (HeapBlock (brk m1),
                        m1\<lparr>blocks := (blocks m1)(h := None,
                              brk m1 := Some (take n old @ replicate (n - length old) None)),
                           brk := Suc (brk m1)\<rparr>)
                else Some (NULL, m1))))"

text \<open>\<open>free (p)\<close> for an array: nothing for \<open>NULL\<close>, undefined for anything not allocated.\<close>

definition free :: "ptr \<Rightarrow> machine \<Rightarrow> machine option" where
  "free p m =
     (case p of
        NULL \<Rightarrow> Some m
      | StackBuf a \<Rightarrow> None
      | HeapBlock h \<Rightarrow>
          (case blocks m h of
             None \<Rightarrow> None
           | Some b \<Rightarrow> Some (m\<lparr>blocks := (blocks m)(h := None)\<rparr>)))"

definition free_struct :: "nat \<Rightarrow> machine \<Rightarrow> machine" where
  "free_struct a m = m\<lparr>structs := (structs m)(a := None)\<rparr>"

subsection \<open>Reading and writing arrays\<close>

definition buffer_at :: "ptr \<Rightarrow> machine \<Rightarrow> cell list option" where
  "buffer_at p m =
     (case p of
        NULL \<Rightarrow> None
      | StackBuf a \<Rightarrow> map_option stack_buf (structs m a)
      | HeapBlock h \<Rightarrow> blocks m h)"

definition set_buffer :: "ptr \<Rightarrow> cell list \<Rightarrow> machine \<Rightarrow> machine" where
  "set_buffer p b m =
     (case p of
        NULL \<Rightarrow> m
      | StackBuf a \<Rightarrow>
          (case structs m a of
             None \<Rightarrow> m
           | Some s \<Rightarrow> assign a (s\<lparr>stack_buf := b\<rparr>) m)
      | HeapBlock h \<Rightarrow> m\<lparr>blocks := (blocks m)(h := Some b)\<rparr>)"

text \<open>\<open>load_cells p off n\<close> reads the \<open>n\<close> cells at \<open>p + off\<close>; \<open>store_cells\<close> writes there.\<close>

definition load_cells :: "ptr \<Rightarrow> nat \<Rightarrow> nat \<Rightarrow> machine \<Rightarrow> cell list option" where
  "load_cells p off n m =
     (case buffer_at p m of
        None \<Rightarrow> None
      | Some b \<Rightarrow> if off + n \<le> length b then Some (take n (drop off b)) else None)"

definition store_cells :: "ptr \<Rightarrow> nat \<Rightarrow> cell list \<Rightarrow> machine \<Rightarrow> machine option" where
  "store_cells p off cs m =
     (case buffer_at p m of
        None \<Rightarrow> None
      | Some b \<Rightarrow>
          if off + length cs \<le> length b
          then Some (set_buffer p (take off b @ cs @ drop (off + length cs) b) m)
          else None)"

definition load_cell :: "ptr \<Rightarrow> nat \<Rightarrow> machine \<Rightarrow> cell option" where
  "load_cell p i m =
     (case buffer_at p m of
        None \<Rightarrow> None
      | Some b \<Rightarrow> if i < length b then Some (b ! i) else None)"

definition store_cell :: "ptr \<Rightarrow> nat \<Rightarrow> cell \<Rightarrow> machine \<Rightarrow> machine option" where
  "store_cell p i c m =
     (case buffer_at p m of
        None \<Rightarrow> None
      | Some b \<Rightarrow> if i < length b then Some (set_buffer p (b[i := c]) m) else None)"

text \<open>
  \<open>memmove (dst + doff, src + soff, nbytes)\<close> between arrays of the store: all cells are
  read, then written, so overlapping ranges are handled. The calls of \<open>memcpy\<close> in
  vector.c  copy between distinct arrays, where the two functions agree.
\<close>

definition memmove :: "ptr \<Rightarrow> nat \<Rightarrow> ptr \<Rightarrow> nat \<Rightarrow> size_t \<Rightarrow> machine \<Rightarrow> machine option" where
  "memmove dst doff src soff nbytes m =
     (case load_cells src soff (unat nbytes div 8) m of
        None \<Rightarrow> None
      | Some cs \<Rightarrow> store_cells dst doff cs m)"

definition memcpy :: "ptr \<Rightarrow> nat \<Rightarrow> ptr \<Rightarrow> nat \<Rightarrow> size_t \<Rightarrow> machine \<Rightarrow> machine option" where
  "memcpy dst doff src soff nbytes m = memmove dst doff src soff nbytes m"

text \<open>
  \<open>memcpy (dst + doff, src, nbytes)\<close> from an array of the caller, given by its content:
  reading more cells than the array has is undefined.
\<close>

definition memcpy_from :: "ptr \<Rightarrow> nat \<Rightarrow> long list \<Rightarrow> size_t \<Rightarrow> machine \<Rightarrow> machine option" where
  "memcpy_from dst doff src nbytes m =
     (if unat nbytes div 8 \<le> length src
      then store_cells dst doff (map Some (take (unat nbytes div 8) src)) m
      else None)"

section \<open>Construction\<close>

definition mc_vector_make :: "size_t \<Rightarrow> machine \<Rightarrow> (vector \<times> machine) option" where
  "mc_vector_make cap m =
     (if cap = 0 then Some (None, set_errno EINVAL m)
      else
        (let (res, m1) = malloc_struct m in
         case res of
           None \<Rightarrow> Some (None, set_errno ENOBUFS m1)
         | Some a \<Rightarrow>
             if cap > MC_VECTOR_BUFSIZE then
               (let (p, m2) = malloc (cap * sizeof_long) m1 in
                if p = NULL then Some (None, set_errno ENOBUFS m2)
                else Some (Some a,
                           assign a \<lparr>count = 0, capacity = cap, stack_buf = fresh_stack_buf,
                                     heap_buf = p, data = p\<rparr> m2))
             else
               Some (Some a,
                     assign a \<lparr>count = 0, capacity = MC_VECTOR_BUFSIZE,
                               stack_buf = fresh_stack_buf, heap_buf = NULL,
                               data = StackBuf a\<rparr> m1)))"

section \<open>Growth and Push\<close>

definition vec_ensure_capacity :: "vector \<Rightarrow> size_t \<Rightarrow> machine \<Rightarrow> (short \<times> machine) option" where
  "vec_ensure_capacity vec len m =
     (case vec of
        None \<Rightarrow> Some (0, m)
      | Some a \<Rightarrow>
          do {
            s \<leftarrow> structs m a;
            if count s + len \<ge> capacity s then
              do {
                (temp, m1) \<leftarrow> realloc (heap_buf s) ((capacity s * 2 + len) * sizeof_long) m;
                if temp = NULL then Some (0, m1)
                else
                  do {
                    m2 \<leftarrow> (if heap_buf s = NULL
                           then memcpy temp 0 (StackBuf a) 0 (capacity s * sizeof_long) m1
                           else Some m1);
                    s2 \<leftarrow> structs m2 a;
                    Some (1, assign a (s2\<lparr>heap_buf := temp, data := temp,
                                           capacity := capacity s * 2 + len\<rparr>) m2)
                  }
              }
            else Some (1, m)
          })"

definition mc_vector_push :: "vector \<Rightarrow> long \<Rightarrow> machine \<Rightarrow> (short \<times> machine) option" where
  "mc_vector_push vec val m =
     (case vec of
        None \<Rightarrow> Some (0, set_errno EFAULT m)
      | Some a \<Rightarrow>
          do {
            (ok, m1) \<leftarrow> vec_ensure_capacity vec 1 m;
            if ok = 0 then Some (0, set_errno ENOMEM m1)
            else
              do {
                s \<leftarrow> structs m1 a;
                m2 \<leftarrow> store_cell (data s) (unat (count s)) (Some val) m1;
                s2 \<leftarrow> structs m2 a;
                Some (1, assign a (s2\<lparr>count := count s + 1\<rparr>) m2)
              }
          })"

section \<open>Loops\<close>

text \<open>
  The loop \<open>for (i = ...; i < bound; i++) vec->data[i] = value;\<close> of
  \<open>mc_vector_make_filled\<close> and \<open>mc_vector_fill_range\<close>.
\<close>

function fill_loop :: "nat \<Rightarrow> size_t \<Rightarrow> size_t \<Rightarrow> long \<Rightarrow> machine \<Rightarrow> machine option" where
  "fill_loop a i bound val m =
     (if i < bound then
        (case structs m a of
           None \<Rightarrow> None
         | Some s \<Rightarrow>
             (case store_cell (data s) (unat i) (Some val) m of
                None \<Rightarrow> None
              | Some m1 \<Rightarrow> fill_loop a (i + 1) bound val m1))
      else Some m)"
  by pat_completeness auto
termination
proof (relation "measure (\<lambda>(a, i, bound, val, m). unat bound - unat i)", goal_cases)
  case 1
  show ?case by simp
next
  case (2 a i bound val m s m1)
  have lt: "unat i < unat bound"
    using 2(1) by (simp add: word_less_nat_alt)
  have "unat bound < 2 ^ 64"
    using unsigned_less [of bound, where 'a = nat] by simp
  with lt have "unat i + unat (1 :: size_t) < 2 ^ LENGTH(64)"
    by simp
  then have "unat (i + 1) = unat i + unat (1 :: size_t)"
    by (simp only: unat_add_lem)
  with lt show ?case by simp
qed

text \<open>
  The loop \<open>for (i = index, pos = 0; i < index + length; i++, pos++) buffer[pos] = vec->data[i];\<close>
  of \<open>mc_vector_extract\<close>; \<open>buffer\<close> is the caller's array, given by its content.
\<close>

function extract_loop :: "nat \<Rightarrow> cell list \<Rightarrow> size_t \<Rightarrow> size_t \<Rightarrow> size_t \<Rightarrow> machine \<Rightarrow> cell list option" where
  "extract_loop a buffer i pos bound m =
     (if i < bound then
        (case structs m a of
           None \<Rightarrow> None
         | Some s \<Rightarrow>
             (case load_cell (data s) (unat i) m of
                None \<Rightarrow> None
              | Some c \<Rightarrow>
                  if unat pos < length buffer
                  then extract_loop a (buffer[unat pos := c]) (i + 1) (pos + 1) bound m
                  else None))
      else Some buffer)"
  by pat_completeness auto
termination
proof (relation "measure (\<lambda>(a, buffer, i, pos, bound, m). unat bound - unat i)", goal_cases)
  case 1
  show ?case by simp
next
  case (2 a buffer i pos bound m s c)
  have lt: "unat i < unat bound"
    using 2(1) by (simp add: word_less_nat_alt)
  have "unat bound < 2 ^ 64"
    using unsigned_less [of bound, where 'a = nat] by simp
  with lt have "unat i + unat (1 :: size_t) < 2 ^ LENGTH(64)"
    by simp
  then have "unat (i + 1) = unat i + unat (1 :: size_t)"
    by (simp only: unat_add_lem)
  with lt show ?case by simp
qed

declare fill_loop.simps [simp del]
declare extract_loop.simps [simp del]

section \<open>The other constructors, and destruction\<close>

definition mc_vector_make_filled :: "size_t \<Rightarrow> size_t \<Rightarrow> long \<Rightarrow> machine \<Rightarrow> (vector \<times> machine) option" where
  "mc_vector_make_filled cap len val m =
     (if cap = 0 \<or> len = 0 \<or> cap < len then Some (None, set_errno EINVAL m)
      else
        do {
          (res, m1) \<leftarrow> mc_vector_make cap m;
          case res of
            None \<Rightarrow> Some (None, m1)
          | Some a \<Rightarrow>
              do {
                m2 \<leftarrow> fill_loop a 0 len val m1;
                s \<leftarrow> structs m2 a;
                Some (Some a, assign a (s\<lparr>count := len\<rparr>) m2)
              }
        })"

definition mc_vector_clone :: "vector \<Rightarrow> machine \<Rightarrow> (vector \<times> machine) option" where
  "mc_vector_clone vec m =
     (case vec of
        None \<Rightarrow> Some (None, set_errno EFAULT m)
      | Some v \<Rightarrow>
          do {
            sv \<leftarrow> structs m v;
            (res, m1) \<leftarrow> mc_vector_make (capacity sv) m;
            case res of
              None \<Rightarrow> Some (None, m1)
            | Some a \<Rightarrow>
                do {
                  s \<leftarrow> structs m1 a;
                  sv1 \<leftarrow> structs m1 v;
                  m2 \<leftarrow> memcpy (data s) 0 (data sv1) 0 (count sv1 * sizeof_long) m1;
                  s2 \<leftarrow> structs m2 a;
                  sv2 \<leftarrow> structs m2 v;
                  Some (Some a, assign a (s2\<lparr>capacity := capacity sv2, count := count sv2\<rparr>) m2)
                }
          })"

text \<open>The array \<open>src\<close> of the caller is given by its content; \<open>None\<close> is the null pointer.\<close>

definition mc_vector_from_array :: "long list option \<Rightarrow> size_t \<Rightarrow> machine \<Rightarrow> (vector \<times> machine) option" where
  "mc_vector_from_array src len m =
     (case src of
        None \<Rightarrow> Some (None, set_errno EFAULT m)
      | Some xs \<Rightarrow>
          if len = 0 then Some (None, set_errno EINVAL m)
          else
            do {
              (res, m1) \<leftarrow> mc_vector_make (len * 2) m;
              case res of
                None \<Rightarrow> Some (None, m1)
              | Some a \<Rightarrow>
                  do {
                    s \<leftarrow> structs m1 a;
                    m2 \<leftarrow> memcpy_from (data s) 0 xs (len * sizeof_long) m1;
                    s2 \<leftarrow> structs m2 a;
                    Some (Some a, assign a (s2\<lparr>capacity := len * 2, count := len\<rparr>) m2)
                  }
            })"

definition mc_vector_free :: "vector \<Rightarrow> machine \<Rightarrow> (unit \<times> machine) option" where
  "mc_vector_free vec m =
     (case vec of
        None \<Rightarrow> Some ((), m)
      | Some a \<Rightarrow>
          do {
            s \<leftarrow> structs m a;
            m1 \<leftarrow> (if heap_buf s \<noteq> NULL then free (heap_buf s) m else Some m);
            Some ((), free_struct a m1)
          })"

section \<open>Copying out\<close>

definition mc_vector_extract ::
    "vector \<Rightarrow> cell list option \<Rightarrow> size_t \<Rightarrow> size_t \<Rightarrow> machine \<Rightarrow> ((cint \<times> cell list option) \<times> machine) option" where
  "mc_vector_extract vec buffer index len m =
     (case (vec, buffer) of
        (Some a, Some buf) \<Rightarrow>
          do {
            s \<leftarrow> structs m a;
            if index \<ge> count s \<or> len = 0 \<or> index + len > count s
            then Some ((0, buffer), set_errno EINVAL m)
            else
              do {
                buf' \<leftarrow> extract_loop a buf index 0 (index + len) m;
                Some ((ucast len, Some buf'), m)
              }
          }
      | _ \<Rightarrow> Some ((0, buffer), set_errno EFAULT m))"

definition mc_vector_to_array ::
    "vector \<Rightarrow> cell list option \<Rightarrow> machine \<Rightarrow> ((cint \<times> cell list option) \<times> machine) option" where
  "mc_vector_to_array vec buffer m =
     (case vec of
        None \<Rightarrow> None
      | Some a \<Rightarrow>
          do {
            s \<leftarrow> structs m a;
            mc_vector_extract vec buffer 0 (count s) m
          })"

section \<open>Element access and queries\<close>

text \<open>The out-parameter \<open>long *out\<close> is given by the content of its target; \<open>None\<close> is \<open>NULL\<close>.\<close>

definition mc_vector_get ::
    "vector \<Rightarrow> size_t \<Rightarrow> cell option \<Rightarrow> machine \<Rightarrow> ((short \<times> cell option) \<times> machine) option" where
  "mc_vector_get vec index out m =
     (case (vec, out) of
        (Some a, Some c) \<Rightarrow>
          do {
            s \<leftarrow> structs m a;
            if index \<ge> capacity s then Some ((0, out), set_errno EINVAL m)
            else
              do {
                c' \<leftarrow> load_cell (data s) (unat index) m;
                Some ((1, Some c'), m)
              }
          }
      | _ \<Rightarrow> Some ((0, out), set_errno EFAULT m))"

definition mc_vector_get_unchecked :: "vector \<Rightarrow> size_t \<Rightarrow> machine \<Rightarrow> (cell \<times> machine) option" where
  "mc_vector_get_unchecked vec index m =
     (case vec of
        None \<Rightarrow> Some (Some LONG_MAX, m)
      | Some a \<Rightarrow>
          do {
            s \<leftarrow> structs m a;
            if index \<ge> capacity s then Some (Some LONG_MAX, m)
            else
              do {
                c \<leftarrow> load_cell (data s) (unat index) m;
                Some (c, m)
              }
          })"

definition mc_vector_set :: "vector \<Rightarrow> size_t \<Rightarrow> long \<Rightarrow> machine \<Rightarrow> (short \<times> machine) option" where
  "mc_vector_set vec index val m =
     (case vec of
        None \<Rightarrow> Some (0, set_errno EFAULT m)
      | Some a \<Rightarrow>
          do {
            s \<leftarrow> structs m a;
            if index \<ge> count s then Some (0, set_errno EINVAL m)
            else
              do {
                m1 \<leftarrow> store_cell (data s) (unat index) (Some val) m;
                Some (1, m1)
              }
          })"

definition mc_vector_size :: "vector \<Rightarrow> machine \<Rightarrow> (size_t \<times> machine) option" where
  "mc_vector_size vec m =
     (case vec of
        None \<Rightarrow> Some (0, set_errno EFAULT m)
      | Some a \<Rightarrow> do { s \<leftarrow> structs m a; Some (count s, m) })"

definition mc_vector_capacity :: "vector \<Rightarrow> machine \<Rightarrow> (size_t \<times> machine) option" where
  "mc_vector_capacity vec m =
     (case vec of
        None \<Rightarrow> Some (0, set_errno EFAULT m)
      | Some a \<Rightarrow> do { s \<leftarrow> structs m a; Some (capacity s, m) })"

definition mc_vector_empty :: "vector \<Rightarrow> machine \<Rightarrow> (short \<times> machine) option" where
  "mc_vector_empty vec m =
     (case vec of
        None \<Rightarrow> Some (1, set_errno EFAULT m)
      | Some a \<Rightarrow> do { s \<leftarrow> structs m a; Some (if count s = 0 then 1 else 0, m) })"

definition mc_vector_is_stack :: "vector \<Rightarrow> machine \<Rightarrow> (short \<times> machine) option" where
  "mc_vector_is_stack vec m =
     (case vec of
        None \<Rightarrow> Some (0, set_errno EFAULT m)
      | Some a \<Rightarrow> do { s \<leftarrow> structs m a; Some (if data s \<noteq> heap_buf s then 1 else 0, m) })"

section \<open>Pop, Insert, Remove, Erase\<close>

definition mc_vector_pop :: "vector \<Rightarrow> machine \<Rightarrow> (cell \<times> machine) option" where
  "mc_vector_pop vec m =
     (case vec of
        None \<Rightarrow> Some (Some LONG_MIN, set_errno EFAULT m)
      | Some a \<Rightarrow>
          do {
            s \<leftarrow> structs m a;
            if count s = 0 then Some (Some LONG_MIN, set_errno ENOMEM m)
            else
              do {
                res \<leftarrow> load_cell (data s) (unat (count s - 1)) m;
                Some (res, assign a (s\<lparr>count := count s - 1\<rparr>) m)
              }
          })"

definition mc_vector_insert :: "vector \<Rightarrow> size_t \<Rightarrow> long \<Rightarrow> machine \<Rightarrow> (short \<times> machine) option" where
  "mc_vector_insert vec index val m =
     (case vec of
        None \<Rightarrow> Some (0, set_errno EFAULT m)
      | Some a \<Rightarrow>
          do {
            s \<leftarrow> structs m a;
            if index \<ge> count s then Some (0, set_errno EINVAL m)
            else
              do {
                (ok, m1) \<leftarrow> vec_ensure_capacity vec 1 m;
                if ok = 0 then Some (0, set_errno ENOMEM m1)
                else
                  do {
                    s1 \<leftarrow> structs m1 a;
                    if index = count s1 - 1 then mc_vector_push vec val m1
                    else
                      do {
                        m2 \<leftarrow> memmove (data s1) (unat index + 1) (data s1) (unat index)
                                ((count s1 - index) * sizeof_long) m1;
                        s2 \<leftarrow> structs m2 a;
                        m3 \<leftarrow> store_cell (data s2) (unat index) (Some val) m2;
                        s3 \<leftarrow> structs m3 a;
                        Some (1, assign a (s3\<lparr>count := count s3 + 1\<rparr>) m3)
                      }
                  }
              }
          })"

definition mc_vector_inserts ::
    "vector \<Rightarrow> size_t \<Rightarrow> long list option \<Rightarrow> size_t \<Rightarrow> machine \<Rightarrow> (short \<times> machine) option" where
  "mc_vector_inserts vec index src len m =
     (case (vec, src) of
        (Some a, Some xs) \<Rightarrow>
          do {
            s \<leftarrow> structs m a;
            if index \<ge> capacity s \<or> len = 0 \<or> index + len \<ge> capacity s
            then Some (0, set_errno EINVAL m)
            else
              do {
                (ok, m1) \<leftarrow> vec_ensure_capacity vec len m;
                if ok = 0 then Some (0, set_errno ENOMEM m1)
                else
                  do {
                    s1 \<leftarrow> structs m1 a;
                    m2 \<leftarrow> (if index \<noteq> count s1 - 1
                           then memmove (data s1) (unat index + unat len) (data s1) (unat index)
                                  ((count s1 - index) * sizeof_long) m1
                           else Some m1);
                    s2 \<leftarrow> structs m2 a;
                    m3 \<leftarrow> memcpy_from (data s2) (unat index) xs (len * sizeof_long) m2;
                    s3 \<leftarrow> structs m3 a;
                    Some (ucast len, assign a (s3\<lparr>count := count s3 + len\<rparr>) m3)
                  }
              }
          }
      | _ \<Rightarrow> Some (0, set_errno EFAULT m))"

text \<open>
  In \<open>mc_vector_remove\<close> the result of \<open>mc_vector_pop\<close> is compared with \<open>LONG_MIN\<close>;
  the model stops where that value is indeterminate.
\<close>

definition mc_vector_remove :: "vector \<Rightarrow> size_t \<Rightarrow> machine \<Rightarrow> (short \<times> machine) option" where
  "mc_vector_remove vec index m =
     (case vec of
        None \<Rightarrow> Some (0, set_errno EFAULT m)
      | Some a \<Rightarrow>
          do {
            s \<leftarrow> structs m a;
            if index \<ge> count s then Some (0, set_errno EINVAL m)
            else if index = count s - 1 then
              do {
                (res, m1) \<leftarrow> mc_vector_pop vec m;
                r \<leftarrow> res;
                Some (if r \<noteq> LONG_MIN then 1 else 0, m1)
              }
            else
              do {
                m1 \<leftarrow> memmove (data s) (unat index) (data s) (unat index + 1)
                        ((count s - index) * sizeof_long) m;
                s1 \<leftarrow> structs m1 a;
                Some (1, assign a (s1\<lparr>count := count s1 - 1\<rparr>) m1)
              }
          })"

definition mc_vector_erase :: "vector \<Rightarrow> size_t \<Rightarrow> size_t \<Rightarrow> machine \<Rightarrow> (short \<times> machine) option" where
  "mc_vector_erase vec index len m =
     (case vec of
        None \<Rightarrow> Some (0, set_errno EFAULT m)
      | Some a \<Rightarrow>
          do {
            s \<leftarrow> structs m a;
            if index \<ge> count s \<or> len = 0 \<or> index + len \<ge> count s
            then Some (0, set_errno EINVAL m)
            else
              do {
                m1 \<leftarrow> memmove (data s) (unat index) (data s) (unat index + unat len)
                        ((count s - index - len) * sizeof_long) m;
                s1 \<leftarrow> structs m1 a;
                Some (ucast len, assign a (s1\<lparr>count := count s1 - len\<rparr>) m1)
              }
          })"

section \<open>Swap and Fill\<close>

definition mc_vector_swap :: "vector \<Rightarrow> vector \<Rightarrow> machine \<Rightarrow> (short \<times> machine) option" where
  "mc_vector_swap vec1 vec2 m =
     (case (vec1, vec2) of
        (Some a1, Some a2) \<Rightarrow>
          do {
            s1 \<leftarrow> structs m a1;
            s2 \<leftarrow> structs m a2;
            let m1 = assign a1 (s1\<lparr>count := count s2, capacity := capacity s2, data := data s2\<rparr>) m;
            s2' \<leftarrow> structs m1 a2;
            Some (1, assign a2 (s2'\<lparr>count := count s1, capacity := capacity s1, data := data s1\<rparr>) m1)
          }
      | _ \<Rightarrow> Some (0, set_errno EFAULT m))"

definition mc_vector_fill_range ::
    "vector \<Rightarrow> size_t \<Rightarrow> size_t \<Rightarrow> long \<Rightarrow> machine \<Rightarrow> (short \<times> machine) option" where
  "mc_vector_fill_range vec index len val m =
     (case vec of
        None \<Rightarrow> Some (0, set_errno EFAULT m)
      | Some a \<Rightarrow>
          do {
            s \<leftarrow> structs m a;
            if index \<ge> count s \<or> len = 0 \<or> index + len > count s
            then Some (0, set_errno EINVAL m)
            else
              do {
                m1 \<leftarrow> fill_loop a index (index + len) val m;
                Some (1, m1)
              }
          })"

definition mc_vector_fill :: "vector \<Rightarrow> long \<Rightarrow> machine \<Rightarrow> (short \<times> machine) option" where
  "mc_vector_fill vec val m =
     (case vec of
        None \<Rightarrow> None
      | Some a \<Rightarrow>
          do {
            s \<leftarrow> structs m a;
            mc_vector_fill_range vec 0 (count s) val m
          })"

section \<open>Resize, Shrink, Clear\<close>

definition mc_vector_resize :: "vector \<Rightarrow> size_t \<Rightarrow> machine \<Rightarrow> (short \<times> machine) option" where
  "mc_vector_resize vec newSize m =
     (case vec of
        None \<Rightarrow> Some (0, set_errno EFAULT m)
      | Some a \<Rightarrow>
          if newSize = 0 then Some (0, set_errno EINVAL m)
          else
            do {
              s \<leftarrow> structs m a;
              if newSize \<le> MC_VECTOR_BUFSIZE then
                do {
                  m3 \<leftarrow> (if data s = heap_buf s then
                           do {
                             m1 \<leftarrow> memcpy (StackBuf a) 0 (heap_buf s) 0 (newSize * sizeof_long) m;
                             m2 \<leftarrow> free (heap_buf s) m1;
                             s2 \<leftarrow> structs m2 a;
                             Some (assign a (s2\<lparr>heap_buf := NULL\<rparr>) m2)
                           }
                         else Some m);
                  s3 \<leftarrow> structs m3 a;
                  Some (1, assign a (s3\<lparr>data := StackBuf a, capacity := MC_VECTOR_BUFSIZE,
                                         count := newSize\<rparr>) m3)
                }
              else if data s = heap_buf s then
                do {
                  (temp, m1) \<leftarrow> realloc (heap_buf s) (newSize * sizeof_long) m;
                  if temp = NULL then Some (0, set_errno ENOMEM m1)
                  else
                    do {
                      s1 \<leftarrow> structs m1 a;
                      Some (1, assign a (s1\<lparr>heap_buf := temp, data := temp,
                                             capacity := newSize\<rparr>) m1)
                    }
                }
              else
                (let (temp, m1) = malloc (newSize * sizeof_long) m in
                 if temp = NULL then Some (0, set_errno EINVAL m1)
                 else
                   do {
                     m2 \<leftarrow> memcpy temp 0 (StackBuf a) 0 (count s * sizeof_long) m1;
                     s2 \<leftarrow> structs m2 a;
                     Some (1, assign a (s2\<lparr>heap_buf := temp, data := temp,
                                            capacity := newSize\<rparr>) m2)
                   })
            })"

definition mc_vector_shrink :: "vector \<Rightarrow> machine \<Rightarrow> (short \<times> machine) option" where
  "mc_vector_shrink vec m =
     (case vec of
        None \<Rightarrow> None
      | Some a \<Rightarrow>
          do {
            s \<leftarrow> structs m a;
            mc_vector_resize vec (count s) m
          })"

definition mc_vector_clear :: "vector \<Rightarrow> machine \<Rightarrow> (short \<times> machine) option" where
  "mc_vector_clear vec m =
     (case vec of
        None \<Rightarrow> Some (0, set_errno EFAULT m)
      | Some a \<Rightarrow>
          do {
            s \<leftarrow> structs m a;
            m2 \<leftarrow> (if data s = heap_buf s then
                     do {
                       m1 \<leftarrow> free (heap_buf s) m;
                       s1 \<leftarrow> structs m1 a;
                       Some (assign a (s1\<lparr>heap_buf := NULL, data := StackBuf a,
                                          capacity := MC_VECTOR_BUFSIZE\<rparr>) m1)
                     }
                   else Some m);
            s2 \<leftarrow> structs m2 a;
            Some (1, assign a (s2\<lparr>count := 0\<rparr>) m2)
          })"

section \<open>Client programs\<close>

text \<open>
  A client calls the functions one after the other on the same store: \<open>after r f\<close> runs the
  call \<open>f\<close> on the store that the call \<open>r\<close> left; \<open>calls fs\<close> runs the calls \<open>fs\<close>
  in order, dropping what they return; \<open>ret\<close> is the value a call returned
  and \<open>errno_after\<close> the value of \<open>errno\<close> it left.
\<close>

definition after :: "('a \<times> machine) option \<Rightarrow> (machine \<Rightarrow> ('b \<times> machine) option) \<Rightarrow> ('b \<times> machine) option" where
  "after r f = (case r of None \<Rightarrow> None | Some (x, m) \<Rightarrow> f m)"

fun calls :: "(machine \<Rightarrow> ('a \<times> machine) option) list \<Rightarrow> machine \<Rightarrow> (unit \<times> machine) option" where
  "calls [] m = Some ((), m)"
| "calls (f # fs) m = (case f m of None \<Rightarrow> None | Some (x, m1) \<Rightarrow> calls fs m1)"

definition ret :: "('a \<times> machine) option \<Rightarrow> 'a option" where
  "ret r = map_option fst r"

definition errno_after :: "('a \<times> machine) option \<Rightarrow> errno_t option option" where
  "errno_after r = map_option (errno \<circ> snd) r"

text \<open>\<open>with_alloc_plan bs f\<close> is the call \<open>f\<close> made when the coming allocation requests end as \<open>bs\<close> says.\<close>

definition with_alloc_plan :: "bool list \<Rightarrow> (machine \<Rightarrow> ('a \<times> machine) option) \<Rightarrow> machine \<Rightarrow> ('a \<times> machine) option" where
  "with_alloc_plan bs f m = f (m\<lparr>alloc_plan := bs\<rparr>)"

text \<open>The containers the scenarios start from; the first object of a program is at address 0.\<close>

definition pushed :: "long list \<Rightarrow> (unit \<times> machine) option" where
  "pushed xs = after (mc_vector_make 5 init_machine) (calls (map (mc_vector_push (Some 0)) xs))"

definition three_elems :: "(unit \<times> machine) option" where
  "three_elems = pushed [1, 2, 3]"

definition inline_and_allocated :: "(unit \<times> machine) option" where
  "inline_and_allocated =
     after (after (after (mc_vector_make 5 init_machine) (mc_vector_push (Some 0) 1))
              (mc_vector_make 20))
       (calls [mc_vector_push (Some 1) 2])"

definition filled_22 :: "(vector \<times> machine) option" where
  "filled_22 = mc_vector_make_filled 22 22 7 init_machine"

section \<open>Predicates used in the statements\<close>

text \<open>
  \<open>same_scalars s s'\<close>: the two states of a \<open>struct vector_s\<close> agree on every field but
  the inline array. \<open>has_room a m\<close>: the container at address \<open>a\<close> has \<open>count < capacity\<close>.
\<close>

definition same_scalars :: "vector_s \<Rightarrow> vector_s \<Rightarrow> bool" where
  "same_scalars s s' = (count s' = count s \<and> capacity s' = capacity s \<and> heap_buf s' = heap_buf s \<and> data s' = data s)"

definition has_room :: "nat \<Rightarrow> machine \<Rightarrow> bool" where
  "has_room a m = (case structs m a of None \<Rightarrow> False | Some s \<Rightarrow> count s < capacity s)"

text \<open>The store after nine pushes into a container made with capacity 5.\<close>

definition nine_inline :: machine where
  "nine_inline = snd (the (pushed [1, 2, 3, 4, 5, 6, 7, 8, 9]))"

text \<open>
  \<open>well_formed a m\<close>: the container at address \<open>a\<close> is in one of the two states the
  constructors and the growth and resize paths establish: inline (\<open>heap_buf\<close> null,
  \<open>data\<close> the own inline array, capacity at most \<open>MC_VECTOR_BUFSIZE\<close>) or allocated
  (\<open>data = heap_buf\<close>, a live array of exactly \<open>capacity\<close> cells).
  \<open>first_cells k a m\<close>: the first \<open>k\<close> cells of the active buffer.
\<close>

definition well_formed :: "nat \<Rightarrow> machine \<Rightarrow> bool" where
  "well_formed a m =
     (case structs m a of
        None \<Rightarrow> False
      | Some s \<Rightarrow>
          length (stack_buf s) = unat MC_VECTOR_BUFSIZE \<and>
          (case heap_buf s of
             NULL \<Rightarrow> data s = StackBuf a \<and> capacity s \<le> MC_VECTOR_BUFSIZE
           | StackBuf b \<Rightarrow> False
           | HeapBlock h \<Rightarrow>
               data s = HeapBlock h \<and>
               (case blocks m h of
                  None \<Rightarrow> False
                | Some b \<Rightarrow> length b = unat (capacity s))))"

definition first_cells :: "nat \<Rightarrow> nat \<Rightarrow> machine \<Rightarrow> cell list option" where
  "first_cells k a m =
     (case structs m a of
        None \<Rightarrow> None
      | Some s \<Rightarrow> load_cells (data s) 0 k m)"

text \<open>The store after eleven pushes into a container made with capacity 5.\<close>

definition eleven_allocated :: machine where
  "eleven_allocated = snd (the (pushed [1, 2, 3, 4, 5, 6, 7, 8, 9, 10, 11]))"

text \<open>\<open>buffer_full a m\<close>: the container at address \<open>a\<close> has \<open>count = capacity\<close>.\<close>

definition buffer_full :: "nat \<Rightarrow> machine \<Rightarrow> bool" where
  "buffer_full a m = (case structs m a of None \<Rightarrow> False | Some s \<Rightarrow> count s = capacity s)"

text \<open>\<open>same_memory m m'\<close>: the two stores hold the same containers and the same arrays.\<close>

definition same_memory :: "machine \<Rightarrow> machine \<Rightarrow> bool" where
  "same_memory m m' = (structs m' = structs m \<and> blocks m' = blocks m)"

section \<open>Supporting lemmas\<close>

subsection \<open>Stores into arrays leave the scalar fields alone\<close>

lemma same_scalars_refl: "same_scalars s s"
  by (simp add: same_scalars_def)

lemma set_buffer_scalars:
  "structs m a = Some s \<Longrightarrow> \<exists>s'. structs (set_buffer p b m) a = Some s' \<and> same_scalars s s'"
  by (cases p) (auto simp: set_buffer_def assign_def same_scalars_def split: option.splits)

lemma store_cells_scalars:
  "store_cells p off cs m = Some m' \<Longrightarrow> structs m a = Some s \<Longrightarrow>
   \<exists>s'. structs m' a = Some s' \<and> same_scalars s s'"
  by (auto simp: store_cells_def set_buffer_scalars split: option.splits if_splits)

lemma store_cell_scalars:
  "store_cell p i c m = Some m' \<Longrightarrow> structs m a = Some s \<Longrightarrow>
   \<exists>s'. structs m' a = Some s' \<and> same_scalars s s'"
  by (auto simp: store_cell_def set_buffer_scalars split: option.splits if_splits)

lemma memmove_scalars:
  "memmove dst doff src soff n m = Some m' \<Longrightarrow> structs m a = Some s \<Longrightarrow>
   \<exists>s'. structs m' a = Some s' \<and> same_scalars s s'"
  by (auto simp: memmove_def split: option.splits dest: store_cells_scalars)

lemma memcpy_scalars:
  "memcpy dst doff src soff n m = Some m' \<Longrightarrow> structs m a = Some s \<Longrightarrow>
   \<exists>s'. structs m' a = Some s' \<and> same_scalars s s'"
  by (simp add: memcpy_def memmove_scalars)

lemma memcpy_from_scalars:
  "memcpy_from dst doff xs n m = Some m' \<Longrightarrow> structs m a = Some s \<Longrightarrow>
   \<exists>s'. structs m' a = Some s' \<and> same_scalars s s'"
  by (auto simp: memcpy_from_def split: if_splits dest: store_cells_scalars)

lemma malloc_structs: "malloc n m = (p, m') \<Longrightarrow> structs m' = structs m"
  by (auto simp: malloc_def alloc_decide_def split: list.splits if_splits prod.splits)

lemma realloc_structs: "realloc p n m = Some (q, m') \<Longrightarrow> structs m' = structs m"
  by (cases p) (auto simp: realloc_def malloc_def alloc_decide_def Let_def split: list.splits if_splits prod.splits option.splits)

lemma ensure_capacity_cases:
  assumes "structs m a = Some s" and "vec_ensure_capacity (Some a) len m = Some (r, m1)" and "r \<noteq> 0"
  shows "\<exists>s1. structs m1 a = Some s1 \<and> count s1 = count s \<and>
           (if capacity s \<le> count s + len then capacity s1 = capacity s * 2 + len else m1 = m)"
  using assms
  apply (simp add: vec_ensure_capacity_def split: if_splits)
  apply (clarsimp simp: bind_eq_Some_conv split: if_splits)
   apply (auto dest!: realloc_structs memcpy_scalars simp: assign_def same_scalars_def)
  done


lemma unat_add_nowrap:
  fixes x y :: size_t
  assumes "unat x + unat y < 2 ^ 64"
  shows "unat (x + y) = unat x + unat y"
proof -
  have "unat x + unat y < 2 ^ LENGTH(64)" using assms by simp
  then show ?thesis by (simp only: unat_add_lem)
qed

lemma unat_mult_nowrap:
  fixes x y :: size_t
  assumes "unat x * unat y < 2 ^ 64"
  shows "unat (x * y) = unat x * unat y"
proof -
  have "unat x * unat y < 2 ^ LENGTH(64)" using assms by simp
  then show ?thesis by (simp only: unat_mult_lem)
qed

lemma grow_room:
  fixes cnt cap len :: size_t
  assumes "cnt \<le> cap" and "0 < cap" and "2 * unat cap + unat len < 2 ^ 64"
  shows "cnt + len < cap * 2 + len"
proof -
  have c: "unat cnt \<le> unat cap" using assms(1) by (simp add: word_le_nat_alt)
  have p: "0 < unat cap" using assms(2) by (simp add: word_less_nat_alt)
  have m: "unat (cap * 2) = unat cap * 2"
    using assms(3) unat_mult_nowrap [of cap 2] by simp
  have a: "unat (cap * 2 + len) = unat cap * 2 + unat len"
    using assms(3) m unat_add_nowrap [of "cap * 2" len] by simp
  have b: "unat (cnt + len) = unat cnt + unat len"
    using assms(3) c unat_add_nowrap [of cnt len] by simp
  show ?thesis using a b c p by (simp add: word_less_nat_alt)
qed

lemma ensure_capacity_room:
  assumes s: "structs m a = Some s"
      and le: "count s \<le> capacity s"
      and pos: "0 < capacity s"
      and fit: "2 * unat (capacity s) + unat len < 2 ^ 64"
      and e: "vec_ensure_capacity (Some a) len m = Some (x, m1)"
      and x: "x \<noteq> 0"
  shows "\<exists>s1. structs m1 a = Some s1 \<and> count s1 = count s \<and> count s + len < capacity s1"
proof -
  from ensure_capacity_cases [OF s e x] obtain s1 where
      s1: "structs m1 a = Some s1" and c1: "count s1 = count s"
      and cap1: "if capacity s \<le> count s + len then capacity s1 = capacity s * 2 + len else m1 = m"
    by auto
  have "count s + len < capacity s1"
  proof (cases "capacity s \<le> count s + len")
    case True
    with cap1 have "capacity s1 = capacity s * 2 + len" by simp
    with grow_room [OF le pos fit] show ?thesis by simp
  next
    case False
    with cap1 s s1 show ?thesis by auto
  qed
  with s1 c1 show ?thesis by simp
qed

lemma push_room_after_ensure:
  assumes s: "structs m a = Some s"
      and room: "count s + 1 < capacity s"
      and ok: "mc_vector_push (Some a) val m = Some (r, m')"
      and r: "r \<noteq> 0"
  shows "has_room a m'"
proof -
  from ok r obtain x m1 s1 m2 s2 where
      e: "vec_ensure_capacity (Some a) 1 m = Some (x, m1)" and x: "x \<noteq> 0"
      and s1: "structs m1 a = Some s1"
      and st: "store_cell (data s1) (unat (count s1)) (Some val) m1 = Some m2"
      and s2: "structs m2 a = Some s2"
      and m': "m' = assign a (s2\<lparr>count := count s1 + 1\<rparr>) m2"
    by (auto simp: mc_vector_push_def bind_eq_Some_conv split: if_splits)
  from room have "\<not> capacity s \<le> count s + 1" by simp
  with ensure_capacity_cases [OF s e x] have "m1 = m" by auto
  with s s1 have "s1 = s" by simp
  moreover from store_cell_scalars [OF st s1] s2 have "same_scalars s1 s2" by auto
  ultimately show ?thesis using room
    by (simp add: has_room_def m' assign_def same_scalars_def)
qed

lemma push_has_room:
  assumes s: "structs m a = Some s"
      and le: "count s \<le> capacity s"
      and pos: "0 < capacity s"
      and fit: "2 * unat (capacity s) + 1 < 2 ^ 64"
      and ok: "mc_vector_push (Some a) val m = Some (r, m')"
      and r: "r \<noteq> 0"
  shows "has_room a m'"
proof -
  from ok r obtain x m1 s1 m2 s2 where
      e: "vec_ensure_capacity (Some a) 1 m = Some (x, m1)" and x: "x \<noteq> 0"
      and s1: "structs m1 a = Some s1"
      and st: "store_cell (data s1) (unat (count s1)) (Some val) m1 = Some m2"
      and s2: "structs m2 a = Some s2"
      and m': "m' = assign a (s2\<lparr>count := count s1 + 1\<rparr>) m2"
    by (auto simp: mc_vector_push_def bind_eq_Some_conv split: if_splits)
  from ensure_capacity_room [OF s le pos _ e x] fit s1
  have c1: "count s1 = count s" and room: "count s + 1 < capacity s1"
    by auto
  from store_cell_scalars [OF st s1] s2 have "same_scalars s1 s2" by auto
  with c1 room show ?thesis
    by (simp add: has_room_def m' assign_def same_scalars_def)
qed

lemma insert_has_room:
  assumes s: "structs m a = Some s"
      and le: "count s \<le> capacity s"
      and pos: "0 < capacity s"
      and fit: "2 * unat (capacity s) + 1 < 2 ^ 64"
      and ok: "mc_vector_insert (Some a) index val m = Some (r, m')"
      and r: "r \<noteq> 0"
  shows "has_room a m'"
proof -
  from ok r s obtain x m1 s1 where
      e: "vec_ensure_capacity (Some a) 1 m = Some (x, m1)" and x: "x \<noteq> 0"
      and s1: "structs m1 a = Some s1"
      and rest: "if index = count s1 - 1 then mc_vector_push (Some a) val m1 = Some (r, m')
                 else (\<exists>m2 s2 m3 s3.
                        memmove (data s1) (unat index + 1) (data s1) (unat index)
                          ((count s1 - index) * sizeof_long) m1 = Some m2
                        \<and> structs m2 a = Some s2
                        \<and> store_cell (data s2) (unat index) (Some val) m2 = Some m3
                        \<and> structs m3 a = Some s3
                        \<and> m' = assign a (s3\<lparr>count := count s3 + 1\<rparr>) m3)"
    by (auto simp: mc_vector_insert_def bind_eq_Some_conv split: if_splits)
  from ensure_capacity_room [OF s le pos _ e x] fit s1
  have c1: "count s1 = count s" and room: "count s + 1 < capacity s1"
    by auto
  show ?thesis
  proof (cases "index = count s1 - 1")
    case True
    with rest have "mc_vector_push (Some a) val m1 = Some (r, m')" by simp
    from push_room_after_ensure [OF s1 _ this r] c1 room show ?thesis by simp
  next
    case False
    with rest obtain m2 s2 m3 s3 where
        mv: "memmove (data s1) (unat index + 1) (data s1) (unat index)
               ((count s1 - index) * sizeof_long) m1 = Some m2"
        and s2: "structs m2 a = Some s2"
        and st: "store_cell (data s2) (unat index) (Some val) m2 = Some m3"
        and s3: "structs m3 a = Some s3"
        and m': "m' = assign a (s3\<lparr>count := count s3 + 1\<rparr>) m3"
      by auto
    from memmove_scalars [OF mv s1] s2 have "same_scalars s1 s2" by auto
    moreover from store_cell_scalars [OF st s2] s3 have "same_scalars s2 s3" by auto
    ultimately show ?thesis using c1 room
      by (simp add: has_room_def m' assign_def same_scalars_def)
  qed
qed

lemma inserts_steps:
  assumes s: "structs m a = Some s"
      and ok: "mc_vector_inserts (Some a) index (Some xs) len m = Some (r, m')"
      and r: "r \<noteq> 0"
  shows "\<exists>x m1 s1 m2 s2 m3 s3.
      vec_ensure_capacity (Some a) len m = Some (x, m1) \<and> x \<noteq> 0
      \<and> structs m1 a = Some s1
      \<and> ((index \<noteq> count s1 - 1
                \<and> memmove (data s1) (unat index + unat len) (data s1) (unat index)
                       ((count s1 - index) * sizeof_long) m1 = Some m2)
               \<or> (index = count s1 - 1 \<and> m2 = m1))
      \<and> structs m2 a = Some s2
      \<and> memcpy_from (data s2) (unat index) xs (len * sizeof_long) m2 = Some m3
      \<and> structs m3 a = Some s3
      \<and> m' = assign a (s3\<lparr>count := count s3 + len\<rparr>) m3"
  using ok r s
  apply (simp add: mc_vector_inserts_def split: if_splits)
  apply (clarsimp simp: bind_eq_Some_conv)
  apply (simp split: if_split_asm)
  apply (clarsimp simp: bind_eq_Some_conv)
  subgoal for x m1 s1 m2 s2 m3 s3
    apply (rule exI [of _ m2])
    apply (simp split: if_split_asm)
    done
  done

lemma inserts_has_room:
  assumes s: "structs m a = Some s"
      and le: "count s \<le> capacity s"
      and pos: "0 < capacity s"
      and fit: "2 * unat (capacity s) + unat len < 2 ^ 64"
      and ok: "mc_vector_inserts (Some a) index (Some xs) len m = Some (r, m')"
      and r: "r \<noteq> 0"
  shows "has_room a m'"
proof -
  from inserts_steps [OF s ok r] obtain x m1 s1 m2 s2 m3 s3 where
      e: "vec_ensure_capacity (Some a) len m = Some (x, m1)" and x: "x \<noteq> 0"
      and s1: "structs m1 a = Some s1"
      and mv: "(index \<noteq> count s1 - 1
                \<and> memmove (data s1) (unat index + unat len) (data s1) (unat index)
                       ((count s1 - index) * sizeof_long) m1 = Some m2)
               \<or> (index = count s1 - 1 \<and> m2 = m1)"
      and s2: "structs m2 a = Some s2"
      and cp: "memcpy_from (data s2) (unat index) xs (len * sizeof_long) m2 = Some m3"
      and s3: "structs m3 a = Some s3"
      and m': "m' = assign a (s3\<lparr>count := count s3 + len\<rparr>) m3"
    by blast
  from ensure_capacity_room [OF s le pos fit e x] s1
  have c1: "count s1 = count s" and room: "count s + len < capacity s1"
    by auto
  from mv s1 s2 have "same_scalars s1 s2"
    by (auto simp: same_scalars_refl dest: memmove_scalars)
  moreover from memcpy_from_scalars [OF cp s2] s3 have "same_scalars s2 s3" by auto
  ultimately show ?thesis using c1 room
    by (simp add: has_room_def m' assign_def same_scalars_def)
qed

lemma ret_Some_eq: "ret r = Some x \<Longrightarrow> r = Some (x, snd (the r))"
  by (cases r) (auto simp: ret_def)

subsection \<open>Resize, branch by branch\<close>

lemma bytes_cells:
  fixes n :: size_t
  assumes "unat n < 2 ^ 61"
  shows "unat (n * sizeof_long) div 8 = unat n"
proof -
  have "unat n * unat (8 :: size_t) < 2 ^ 64" using assms by simp
  then have "unat (n * 8) = unat n * unat (8 :: size_t)" by (rule unat_mult_nowrap)
  then show ?thesis by (simp add: sizeof_long_def)
qed

lemma le_bufsize_unat: "(n :: size_t) \<le> MC_VECTOR_BUFSIZE \<Longrightarrow> unat n \<le> 10"
  by (simp add: word_le_nat_alt MC_VECTOR_BUFSIZE_def)

lemma resize_inline_from_inline:
  assumes s: "structs m a = Some s"
      and h: "heap_buf s = NULL" and d: "data s = StackBuf a"
      and n: "newSize \<le> MC_VECTOR_BUFSIZE" and z: "newSize \<noteq> 0"
  shows "mc_vector_resize (Some a) newSize m =
           Some (1, assign a (s\<lparr>data := StackBuf a, capacity := MC_VECTOR_BUFSIZE, count := newSize\<rparr>) m)"
  using assms by (simp add: mc_vector_resize_def)

lemma resize_inline_from_heap:
  assumes s: "structs m a = Some s"
      and h: "heap_buf s = HeapBlock h" and d: "data s = HeapBlock h"
      and b: "blocks m h = Some b"
      and n: "newSize \<le> MC_VECTOR_BUFSIZE" and z: "newSize \<noteq> 0"
      and l: "length (stack_buf s) = 10"
      and ok: "mc_vector_resize (Some a) newSize m = Some (r, m')"
  shows "unat newSize \<le> length b \<and> r = 1 \<and>
         m' = (assign a (s\<lparr>stack_buf := take (unat newSize) b @ drop (unat newSize) (stack_buf s),
                         heap_buf := NULL, data := StackBuf a, capacity := MC_VECTOR_BUFSIZE, count := newSize\<rparr>) m)
               \<lparr>blocks := (blocks m)(h := None)\<rparr>"
proof -
  have u: "unat (newSize * sizeof_long) div 8 = unat newSize"
    using le_bufsize_unat [OF n] by (intro bytes_cells) simp
  show ?thesis
    using assms le_bufsize_unat [OF n]
    by (auto simp: mc_vector_resize_def memcpy_def memmove_def load_cells_def store_cells_def buffer_at_def
        set_buffer_def assign_def free_def u bind_eq_Some_conv split: if_splits)
qed


lemma gt_bufsize_unat: "MC_VECTOR_BUFSIZE < (n :: size_t) \<Longrightarrow> 10 < unat n"
  by (simp add: word_less_nat_alt MC_VECTOR_BUFSIZE_def)

lemma resize_heap_from_heap:
  assumes s: "structs m a = Some s"
      and h: "heap_buf s = HeapBlock h" and d: "data s = HeapBlock h"
      and b: "blocks m h = Some b"
      and n: "MC_VECTOR_BUFSIZE < newSize"
      and fit: "unat newSize < 2 ^ 61"
      and ok: "mc_vector_resize (Some a) newSize m = Some (r, m')"
      and r: "r \<noteq> 0"
  shows "\<exists>h'. structs m' a = Some (s\<lparr>heap_buf := HeapBlock h', data := HeapBlock h', capacity := newSize\<rparr>)
            \<and> blocks m' h' = Some (take (unat newSize) b @ replicate (unat newSize - length b) None)"
proof -
  have u: "unat (newSize * sizeof_long) div 8 = unat newSize"
    using fit by (rule bytes_cells)
  have z: "newSize \<noteq> 0" "\<not> newSize \<le> MC_VECTOR_BUFSIZE"
    using n by auto
  show ?thesis
    using s h d b ok r z
    by (auto simp: mc_vector_resize_def realloc_def alloc_decide_def assign_def set_errno_def u
        bind_eq_Some_conv Let_def split: if_splits list.splits)
qed

lemma resize_heap_from_inline:
  assumes s: "structs m a = Some s"
      and h: "heap_buf s = NULL" and d: "data s = StackBuf a"
      and c: "count s \<le> MC_VECTOR_BUFSIZE"
      and l: "length (stack_buf s) = 10"
      and n: "MC_VECTOR_BUFSIZE < newSize"
      and fit: "unat newSize < 2 ^ 61"
      and ok: "mc_vector_resize (Some a) newSize m = Some (r, m')"
      and r: "r \<noteq> 0"
  shows "\<exists>h'. structs m' a = Some (s\<lparr>heap_buf := HeapBlock h', data := HeapBlock h', capacity := newSize\<rparr>)
            \<and> blocks m' h' = Some (take (unat (count s)) (stack_buf s)
                                     @ replicate (unat newSize - unat (count s)) None)"
proof -
  have u: "unat (newSize * sizeof_long) div 8 = unat newSize"
    using fit by (rule bytes_cells)
  have c10: "unat (count s) \<le> 10" using c by (rule le_bufsize_unat)
  then have uc: "unat (count s * sizeof_long) div 8 = unat (count s)"
    by (intro bytes_cells) simp
  have z: "newSize \<noteq> 0" "\<not> newSize \<le> MC_VECTOR_BUFSIZE"
    using n by auto
  show ?thesis
    using s h d ok r z c10 l gt_bufsize_unat [OF n]
    by (auto simp: mc_vector_resize_def malloc_def alloc_decide_def assign_def set_errno_def u uc
        memcpy_def memmove_def load_cells_def store_cells_def buffer_at_def set_buffer_def
        bind_eq_Some_conv Let_def split: if_splits list.splits)
qed

lemma resize_to_inline:
  assumes wf: "well_formed a m"
      and s: "structs m a = Some s"
      and ok: "mc_vector_resize (Some a) newSize m = Some (r, m')"
      and r: "r \<noteq> 0"
      and n: "newSize \<le> MC_VECTOR_BUFSIZE"
  shows "mc_vector_is_stack (Some a) m' = Some (1, m')
       \<and> mc_vector_capacity (Some a) m' = Some (MC_VECTOR_BUFSIZE, m')
       \<and> mc_vector_size (Some a) m' = Some (newSize, m')
       \<and> first_cells (unat newSize) a m \<noteq> None
       \<and> first_cells (unat newSize) a m' = first_cells (unat newSize) a m"
proof -
  from ok r have z: "newSize \<noteq> 0"
    by (auto simp: mc_vector_resize_def set_errno_def)
  from wf s have l: "length (stack_buf s) = 10"
    by (simp add: well_formed_def MC_VECTOR_BUFSIZE_def)
  note n10 = le_bufsize_unat [OF n]
  show ?thesis
  proof (cases "heap_buf s")
    case NULL
    with wf s have d: "data s = StackBuf a" by (simp add: well_formed_def)
    from resize_inline_from_inline [OF s NULL d n z] ok
    have "m' = assign a (s\<lparr>data := StackBuf a, capacity := MC_VECTOR_BUFSIZE, count := newSize\<rparr>) m"
      by simp
    with s NULL d l n10 show ?thesis
      by (simp add: mc_vector_is_stack_def mc_vector_capacity_def mc_vector_size_def first_cells_def
          load_cells_def buffer_at_def assign_def)
  next
    case (StackBuf b)
    with wf s show ?thesis by (simp add: well_formed_def)
  next
    case (HeapBlock h)
    with wf s obtain b where d: "data s = HeapBlock h" and b: "blocks m h = Some b"
      by (auto simp: well_formed_def split: option.splits)
    from resize_inline_from_heap [OF s HeapBlock d b n z l ok]
    have nb: "unat newSize \<le> length b"
      and m': "m' = (assign a (s\<lparr>stack_buf := take (unat newSize) b @ drop (unat newSize) (stack_buf s),
                         heap_buf := NULL, data := StackBuf a, capacity := MC_VECTOR_BUFSIZE, count := newSize\<rparr>) m)
               \<lparr>blocks := (blocks m)(h := None)\<rparr>"
      by auto
    from s HeapBlock d b l n10 nb show ?thesis
      by (simp add: m' mc_vector_is_stack_def mc_vector_capacity_def mc_vector_size_def first_cells_def
          load_cells_def buffer_at_def assign_def)
  qed
qed

lemma resize_to_allocated:
  assumes wf: "well_formed a m"
      and s: "structs m a = Some s"
      and le: "count s \<le> capacity s"
      and ok: "mc_vector_resize (Some a) newSize m = Some (r, m')"
      and r: "r \<noteq> 0"
      and n: "MC_VECTOR_BUFSIZE < newSize"
      and fit: "unat newSize < 2 ^ 61"
  shows "mc_vector_is_stack (Some a) m' = Some (0, m')
       \<and> mc_vector_capacity (Some a) m' = Some (newSize, m')
       \<and> mc_vector_size (Some a) m' = Some (count s, m')
       \<and> first_cells (min (unat (count s)) (unat newSize)) a m \<noteq> None
       \<and> first_cells (min (unat (count s)) (unat newSize)) a m'
           = first_cells (min (unat (count s)) (unat newSize)) a m"
proof -
  from wf s have l: "length (stack_buf s) = 10"
    by (simp add: well_formed_def MC_VECTOR_BUFSIZE_def)
  from le have cle: "unat (count s) \<le> unat (capacity s)"
    by (simp add: word_le_nat_alt)
  show ?thesis
  proof (cases "heap_buf s")
    case NULL
    with wf s have d: "data s = StackBuf a" and c: "capacity s \<le> MC_VECTOR_BUFSIZE"
      by (simp_all add: well_formed_def)
    from le c have c10: "count s \<le> MC_VECTOR_BUFSIZE" by simp
    from resize_heap_from_inline [OF s NULL d c10 l n fit ok r] obtain h' where
        s': "structs m' a = Some (s\<lparr>heap_buf := HeapBlock h', data := HeapBlock h', capacity := newSize\<rparr>)"
        and b': "blocks m' h' = Some (take (unat (count s)) (stack_buf s)
                                     @ replicate (unat newSize - unat (count s)) None)"
      by blast
    from s NULL d l le_bufsize_unat [OF c10] gt_bufsize_unat [OF n] show ?thesis
      by (simp add: s' b' mc_vector_is_stack_def mc_vector_capacity_def mc_vector_size_def
          first_cells_def load_cells_def buffer_at_def min_def)
  next
    case (StackBuf b)
    with wf s show ?thesis by (simp add: well_formed_def)
  next
    case (HeapBlock h)
    with wf s obtain b where d: "data s = HeapBlock h" and b: "blocks m h = Some b"
        and lb: "length b = unat (capacity s)"
      by (auto simp: well_formed_def split: option.splits)
    from resize_heap_from_heap [OF s HeapBlock d b n fit ok r] obtain h' where
        s': "structs m' a = Some (s\<lparr>heap_buf := HeapBlock h', data := HeapBlock h', capacity := newSize\<rparr>)"
        and b': "blocks m' h' = Some (take (unat newSize) b @ replicate (unat newSize - length b) None)"
      by blast
    from s HeapBlock d b lb cle show ?thesis
      by (simp add: s' b' mc_vector_is_stack_def mc_vector_capacity_def mc_vector_size_def
          first_cells_def load_cells_def buffer_at_def min_def)
  qed
qed

subsection \<open>The copy loop, and the state built from an array\<close>








subsection \<open>Insert followed by Remove, below the last index\<close>

text \<open>
  For a well-formed container with \<open>count \<le> capacity\<close> and an index with
  \<open>index + 1 < count\<close>, a successful \<open>mc_vector_insert\<close> followed by
  \<open>mc_vector_remove\<close> at the same index succeeds and gives back the count and the live
  elements (the growth \<open>capacity * 2 + 1\<close> taken to fit in \<open>size_t\<close> bytes).
\<close>

lemma buffer_at_set_buffer:
  "buffer_at p m = Some b \<Longrightarrow> buffer_at p (set_buffer p b' m) = Some b'"
  by (cases p) (auto simp: buffer_at_def set_buffer_def assign_def)

lemma store_cells_buffer:
  assumes "buffer_at p m = Some b" and "off + length cs \<le> length b"
  shows "\<exists>m'. store_cells p off cs m = Some m'
           \<and> buffer_at p m' = Some (take off b @ cs @ drop (off + length cs) b)"
  using assms by (simp add: store_cells_def buffer_at_set_buffer)

lemma memmove_within:
  assumes b: "buffer_at p m = Some b"
      and n: "unat nbytes div 8 = n"
      and src: "soff + n \<le> length b" and dst: "doff + n \<le> length b"
  shows "\<exists>m'. memmove p doff p soff nbytes m = Some m'
           \<and> buffer_at p m' = Some (take doff b @ take n (drop soff b) @ drop (doff + n) b)"
proof -
  have "load_cells p soff n m = Some (take n (drop soff b))"
    using b src by (simp add: load_cells_def)
  moreover have "length (take n (drop soff b)) = n"
    using src by simp
  ultimately show ?thesis
    using store_cells_buffer [OF b, of doff "take n (drop soff b)"] dst n
    by (simp add: memmove_def)
qed

lemma store_cell_buffer:
  assumes "buffer_at p m = Some b" and "i < length b"
  shows "\<exists>m'. store_cell p i c m = Some m' \<and> buffer_at p m' = Some (b[i := c])"
  using assms by (simp add: store_cell_def buffer_at_set_buffer)

lemma insert_remove_cells:
  fixes b :: "'a list"
  assumes i: "i + 1 < c" and c: "c + 2 \<le> length b"
      and b3: "b3 = (take (i + 1) b @ take (c - i) (drop i b) @ drop (i + 1 + (c - i)) b)[i := v]"
  shows "take c (take i b3 @ take (c + 1 - i) (drop (i + 1) b3) @ drop (i + (c + 1 - i)) b3) = take c b"
proof -
  have l3: "length b3 = length b" using i c by (simp add: b3)
  have t3: "take i b3 = take i b" using i c by (simp add: b3)
  have d3: "drop (Suc i) b3 = take (c - i) (drop i b) @ drop (i + 1 + (c - i)) b"
    using i c by (simp add: b3)
  have "take c (take i b3 @ take (c + 1 - i) (drop (i + 1) b3) @ drop (i + (c + 1 - i)) b3)
        = take i b @ take (c - i) (take (c + 1 - i) (take (c - i) (drop i b) @ drop (i + 1 + (c - i)) b))"
    using i c by (simp add: t3 d3 l3)
  also have "\<dots> = take i b @ take (c - i) (drop i b)"
    using i c by simp
  also have "\<dots> = take (i + (c - i)) b"
    by (simp add: take_add)
  also have "\<dots> = take c b"
    using i by simp
  finally show ?thesis .
qed


lemma unat_add_le_cap:
  fixes cnt cap len :: size_t
  assumes "cnt + len < cap" and "cnt \<le> cap" and "unat cap + unat len < 2 ^ 64"
  shows "unat cnt + unat len < unat cap"
proof -
  have "unat cnt \<le> unat cap" using assms(2) by (simp add: word_le_nat_alt)
  then have "unat cnt + unat len < 2 ^ 64" using assms(3) by simp
  then have "unat (cnt + len) = unat cnt + unat len" by (rule unat_add_nowrap)
  with assms(1) show ?thesis by (simp add: word_less_nat_alt)
qed

lemma ensure_capacity_buffer:
  assumes wf: "well_formed a m"
      and s: "structs m a = Some s"
      and b: "buffer_at (data s) m = Some b"
      and le: "count s \<le> capacity s"
      and pos: "0 < capacity s"
      and fit: "2 * unat (capacity s) + unat len < 2 ^ 61"
      and e: "vec_ensure_capacity (Some a) len m = Some (x, m1)"
      and x: "x \<noteq> 0"
  shows "\<exists>s1 b1. structs m1 a = Some s1 \<and> count s1 = count s
           \<and> buffer_at (data s1) m1 = Some b1
           \<and> unat (count s) + unat len < length b1
           \<and> take (unat (count s)) b1 = take (unat (count s)) b"
proof (cases "capacity s \<le> count s + len")
  case False
  with ensure_capacity_cases [OF s e x] have m1: "m1 = m" by auto
  from False have "count s + len < capacity s" by simp
  from unat_add_le_cap [OF this le] fit have "unat (count s) + unat len < unat (capacity s)" by simp
  moreover from wf s b have "unat (capacity s) \<le> length b"
    by (auto simp: well_formed_def buffer_at_def MC_VECTOR_BUFSIZE_def word_le_nat_alt split: ptr.splits option.splits)
  ultimately show ?thesis using s b m1 by simp
next
  case True
  have cle: "unat (count s) \<le> unat (capacity s)" using le by (simp add: word_le_nat_alt)
  have cp: "0 < unat (capacity s)" using pos by (simp add: word_less_nat_alt)
  have c2: "unat (capacity s * 2) = unat (capacity s) * 2"
    using fit unat_mult_nowrap [of "capacity s" 2] by simp
  have n: "unat (capacity s * 2 + len) = unat (capacity s) * 2 + unat len"
    using fit c2 unat_add_nowrap [of "capacity s * 2" len] by simp
  have u: "unat ((capacity s * 2 + len) * sizeof_long) div 8 = unat (capacity s) * 2 + unat len"
    using fit n bytes_cells [of "capacity s * 2 + len"] by simp
  have uc: "unat (capacity s * sizeof_long) div 8 = unat (capacity s)"
    using fit by (intro bytes_cells) simp
  show ?thesis
  proof (cases "heap_buf s")
    case NULL
    with wf s have d: "data s = StackBuf a" and c10: "unat (capacity s) \<le> 10"
        and l: "length (stack_buf s) = 10"
      by (simp_all add: well_formed_def MC_VECTOR_BUFSIZE_def word_le_nat_alt)
    from b d s have bs: "b = stack_buf s" by (simp add: buffer_at_def)
    from e x s True NULL d c10 l cle cp show ?thesis
      by (auto simp: vec_ensure_capacity_def malloc_def realloc_def alloc_decide_def assign_def u uc bs
          memcpy_def memmove_def load_cells_def store_cells_def buffer_at_def set_buffer_def
          bind_eq_Some_conv Let_def split: if_splits list.splits)
  next
    case (StackBuf y)
    with wf s show ?thesis by (simp add: well_formed_def)
  next
    case (HeapBlock h)
    with wf s b have d: "data s = HeapBlock h" and bh: "blocks m h = Some b"
        and lb: "length b = unat (capacity s)"
      by (auto simp: well_formed_def buffer_at_def split: option.splits)
    from e x s True HeapBlock d bh lb cle cp show ?thesis
      by (auto simp: vec_ensure_capacity_def realloc_def alloc_decide_def assign_def u
          buffer_at_def bind_eq_Some_conv Let_def split: if_splits list.splits)
  qed
qed


lemma buffer_at_assign_count:
  "structs m a = Some s \<Longrightarrow> buffer_at p (assign a (s\<lparr>count := k\<rparr>) m) = buffer_at p m"
  by (cases p) (auto simp: buffer_at_def assign_def)

lemma unat_sub_le:
  fixes x y :: size_t
  assumes "unat y \<le> unat x"
  shows "unat (x - y) = unat x - unat y"
  using assms by (simp add: unat_sub word_le_nat_alt)

proposition insert_then_remove_restores:
  assumes wf: "well_formed a m"
      and s: "structs m a = Some s"
      and le: "count s \<le> capacity s"
      and fit: "2 * unat (capacity s) + 1 < 2 ^ 61"
      and idx: "unat index + 1 < unat (count s)"
      and ins: "mc_vector_insert (Some a) index val m = Some (r, m1)"
      and r: "r \<noteq> 0"
  shows "\<exists>m2. mc_vector_remove (Some a) index m1 = Some (1, m2)
           \<and> mc_vector_size (Some a) m2 = Some (count s, m2)
           \<and> first_cells (unat (count s)) a m \<noteq> None
           \<and> first_cells (unat (count s)) a m2 = first_cells (unat (count s)) a m"
proof -
  define c where "c = unat (count s)"
  define i where "i = unat index"
  have ic: "i + 1 < c" using idx by (simp add: c_def i_def)
  have cle: "c \<le> unat (capacity s)" using le by (simp add: c_def word_le_nat_alt)
  have pos: "0 < capacity s" using cle ic by (simp add: word_less_nat_alt)
  from wf s obtain b where b: "buffer_at (data s) m = Some b" and cb: "unat (capacity s) \<le> length b"
    by (auto simp: well_formed_def buffer_at_def MC_VECTOR_BUFSIZE_def word_le_nat_alt
        split: ptr.splits option.splits)
  from ins r s obtain x m' s1 where
      e: "vec_ensure_capacity (Some a) 1 m = Some (x, m')" and x: "x \<noteq> 0"
      and s1: "structs m' a = Some s1"
      and rest: "if index = count s1 - 1 then mc_vector_push (Some a) val m' = Some (r, m1)
                 else (\<exists>m2 s2 m3 s3.
                        memmove (data s1) (unat index + 1) (data s1) (unat index)
                          ((count s1 - index) * sizeof_long) m' = Some m2
                        \<and> structs m2 a = Some s2
                        \<and> store_cell (data s2) (unat index) (Some val) m2 = Some m3
                        \<and> structs m3 a = Some s3
                        \<and> m1 = assign a (s3\<lparr>count := count s3 + 1\<rparr>) m3)"
    by (auto simp: mc_vector_insert_def bind_eq_Some_conv split: if_splits)
  from ensure_capacity_buffer [OF wf s b le pos _ e x] fit s1 obtain b1 where
      c1: "count s1 = count s" and b1: "buffer_at (data s1) m' = Some b1"
      and l1: "c + 1 < length b1" and t1: "take c b1 = take c b"
    by (auto simp: c_def)
  have c61: "c + 1 < 2 ^ 61" using cle fit by simp
  have sub: "unat (count s - index) = c - i"
    using ic unat_sub_le [of index "count s"] by (simp add: c_def i_def)
  have nb: "unat ((count s - index) * sizeof_long) div 8 = c - i"
    using c61 sub bytes_cells [of "count s - index"] by simp
  have ne: "index \<noteq> count s - 1"
  proof
    assume "index = count s - 1"
    then have "i = unat (count s - 1)" by (simp add: i_def)
    also have "\<dots> = c - 1" using ic unat_sub_le [of 1 "count s"] by (simp add: c_def)
    finally show False using ic by simp
  qed
  with rest c1 obtain m2 s2 m3 s3 where
      mv: "memmove (data s1) (i + 1) (data s1) i ((count s - index) * sizeof_long) m' = Some m2"
      and s2: "structs m2 a = Some s2"
      and st: "store_cell (data s2) i (Some val) m2 = Some m3"
      and s3: "structs m3 a = Some s3"
      and m1: "m1 = assign a (s3\<lparr>count := count s3 + 1\<rparr>) m3"
    by (auto simp: i_def)
  define b2 where "b2 = take (i + 1) b1 @ take (c - i) (drop i b1) @ drop (i + 1 + (c - i)) b1"
  define b3 where "b3 = b2[i := Some val]"
  define b4 where "b4 = take i b3 @ take (c + 1 - i) (drop (i + 1) b3) @ drop (i + (c + 1 - i)) b3"
  have l2: "length b2 = length b1" using ic l1 by (simp add: b2_def)
  have l3: "length b3 = length b1" using l2 by (simp add: b3_def)
  have l4: "length b4 = length b1" using ic l1 l3 by (simp add: b4_def)
  from memmove_within [OF b1 nb, of i "i + 1"] ic l1 mv
  have b2: "buffer_at (data s1) m2 = Some b2" by (auto simp: b2_def)
  from memmove_scalars [OF mv s1] s2 have sc12: "same_scalars s1 s2" by auto
  then have d2: "data s2 = data s1" by (simp add: same_scalars_def)
  from store_cell_buffer [OF b2, of i "Some val"] st d2 ic l1 l2
  have b3: "buffer_at (data s1) m3 = Some b3" by (auto simp: b3_def)
  from store_cell_scalars [OF st s2] s3 have sc23: "same_scalars s2 s3" by auto
  with sc12 c1 d2 have d3: "data s3 = data s1" and c3: "count s3 = count s"
    by (simp_all add: same_scalars_def)
  define s' where "s' = s3\<lparr>count := count s + 1\<rparr>"
  have s': "structs m1 a = Some s'" by (simp add: m1 assign_def c3 s'_def)
  have ds': "data s' = data s1" and cs': "count s' = count s + 1"
    by (simp_all add: s'_def d3)
  have b3': "buffer_at (data s1) m1 = Some b3"
    using b3 s3 by (simp add: m1 buffer_at_assign_count)
  have cnt1: "unat (count s + 1) = c + 1"
    using c61 unat_add_nowrap [of "count s" 1] by (simp add: c_def)
  have sub1: "unat (count s + 1 - index) = c + 1 - i"
    using ic cnt1 unat_sub_le [of index "count s + 1"] by (simp add: i_def)
  have nb1: "unat ((count s + 1 - index) * sizeof_long) div 8 = c + 1 - i"
    using c61 sub1 bytes_cells [of "count s + 1 - index"] by simp
  have lt: "\<not> count s + 1 \<le> index"
    using ic cnt1 by (simp add: word_le_nat_alt i_def)
  have ne1: "index \<noteq> count s + 1 - 1"
    using ic by (auto simp: i_def c_def)
  from memmove_within [OF b3' nb1, of "i + 1" i] ic l1 l3
  obtain m4 where mv4: "memmove (data s1) i (data s1) (i + 1) ((count s + 1 - index) * sizeof_long) m1 = Some m4"
      and b4: "buffer_at (data s1) m4 = Some b4"
    by (auto simp: b4_def)
  from memmove_scalars [OF mv4 s'] obtain s4 where s4: "structs m4 a = Some s4"
      and sc4: "same_scalars s' s4"
    by auto
  then have d4: "data s4 = data s1" and c4: "count s4 = count s + 1"
    by (simp_all add: same_scalars_def ds' cs')
  define m2' where "m2' = assign a (s4\<lparr>count := count s4 - 1\<rparr>) m4"
  have rm: "mc_vector_remove (Some a) index m1 = Some (1, m2')"
    using s' lt ne1 mv4 s4 by (simp add: mc_vector_remove_def ds' cs' i_def m2'_def)
  have s2': "structs m2' a = Some (s4\<lparr>count := count s\<rparr>)"
    by (simp add: m2'_def assign_def c4)
  have sz: "mc_vector_size (Some a) m2' = Some (count s, m2')"
    by (simp add: mc_vector_size_def s2')
  have bm2: "buffer_at (data s1) m2' = Some b4"
    using b4 s4 by (simp add: m2'_def buffer_at_assign_count)
  have cl4: "c \<le> length b4" using l4 l1 by simp
  have tk: "take c b4 = take c b1"
    unfolding b4_def using ic l1 b3_def [unfolded b2_def]
    by (intro insert_remove_cells [where v = "Some val"]) simp_all
  have f2: "first_cells c a m2' = Some (take c b)"
    using bm2 cl4 by (simp add: first_cells_def load_cells_def s2' d4 tk t1)
  have f0: "first_cells c a m = Some (take c b)"
    using s b cle cb by (simp add: first_cells_def load_cells_def)
  show ?thesis
    using rm sz f0 f2 by (simp add: c_def)
qed

subsection \<open>InsertMany, away from the last index\<close>

text \<open>
  For a well-formed container with \<open>count \<le> capacity\<close>, the preconditions of
  \<open>mc_vector_inserts\<close> and an index that is either the count (append) or below
  \<open>count - 1\<close>, a call whose growth succeeds shifts the tail, copies the source into the
  gap, keeps every live element and adds \<open>length\<close> to the count.
\<close>

lemma inserts_cells:
  fixes b :: "'a list"
  assumes i: "i \<le> c" and c: "c + l \<le> length b" and n: "length ys = l"
      and b2: "b2 = take (i + l) b @ take (c - i) (drop i b) @ drop (i + l + (c - i)) b"
  shows "take (c + l) (take i b2 @ ys @ drop (i + l) b2) = take i b @ ys @ take (c - i) (drop i b)"
proof -
  have t: "take i b2 = take i b" using i c by (simp add: b2)
  have d: "drop (i + l) b2 = take (c - i) (drop i b) @ drop (i + l + (c - i)) b"
    using i c by (simp add: b2)
  show ?thesis using i c n by (simp add: t d)
qed

proposition inserts_shifts_and_copies:
  assumes wf: "well_formed a m"
      and s: "structs m a = Some s"
      and b: "buffer_at (data s) m = Some b"
      and le: "count s \<le> capacity s"
      and fit: "2 * unat (capacity s) + unat len < 2 ^ 61"
      and len: "len \<noteq> 0"
      and pre: "index < capacity s" "index + len < capacity s"
      and idx: "unat index + 1 < unat (count s) \<or> index = count s"
      and src: "unat len \<le> length xs"
      and e: "vec_ensure_capacity (Some a) len m = Some (x, m')"
      and x: "x \<noteq> 0"
  shows "\<exists>m1. mc_vector_inserts (Some a) index (Some xs) len m = Some (ucast len, m1)
           \<and> mc_vector_size (Some a) m1 = Some (count s + len, m1)
           \<and> unat (count s + len) = unat (count s) + unat len
           \<and> first_cells (unat (count s) + unat len) a m1
               = Some (take (unat index) b @ map Some (take (unat len) xs)
                       @ take (unat (count s) - unat index) (drop (unat index) b))"
proof -
  define c where "c = unat (count s)"
  define i where "i = unat index"
  define l where "l = unat len"
  have ic: "i \<le> c" and ine: "i + 1 < c \<or> i = c"
    using idx by (auto simp: c_def i_def)
  have cle: "c \<le> unat (capacity s)" using le by (simp add: c_def word_le_nat_alt)
  have pos: "0 < capacity s" using pre(1) by (auto simp: word_less_nat_alt)
  from ensure_capacity_buffer [OF wf s b le pos fit e x] obtain s1 b1 where
      s1: "structs m' a = Some s1" and c1: "count s1 = count s"
      and b1: "buffer_at (data s1) m' = Some b1"
      and l1: "c + l < length b1" and t1: "take c b1 = take c b"
    by (auto simp: c_def l_def)
  have c61: "c + l < 2 ^ 61" using cle fit by (simp add: l_def)
  have sub: "unat (count s - index) = c - i"
    using ic unat_sub_le [of index "count s"] by (simp add: c_def i_def)
  have nb: "unat ((count s - index) * sizeof_long) div 8 = c - i"
    using c61 sub bytes_cells [of "count s - index"] by simp
  have nl: "unat (len * sizeof_long) div 8 = l"
    using c61 bytes_cells [of len] by (simp add: l_def)
  have cl: "unat (count s + len) = c + l"
    using c61 unat_add_nowrap [of "count s" len] by (simp add: c_def l_def)
  define b2 where "b2 = take (i + l) b1 @ take (c - i) (drop i b1) @ drop (i + l + (c - i)) b1"
  define ys where "ys = map Some (take l xs)"
  define b3 where "b3 = take i b2 @ ys @ drop (i + l) b2"
  have ly: "length ys = l" using src by (simp add: ys_def l_def)
  have l2: "length b2 = length b1" using ic l1 by (simp add: b2_def)
  have l3: "length b3 = length b1" using ic l1 l2 ly by (simp add: b3_def)
  from memmove_within [OF b1 nb, of i "i + l"] ic l1
  obtain m2 where mv: "memmove (data s1) (i + l) (data s1) i ((count s - index) * sizeof_long) m' = Some m2"
      and bm2: "buffer_at (data s1) m2 = Some b2"
    by (auto simp: b2_def)
  from memmove_scalars [OF mv s1] obtain s2 where s2: "structs m2 a = Some s2"
      and sc12: "same_scalars s1 s2"
    by auto
  have keep: "b2 = b1" if "i = c"
    using that l1 by (simp add: b2_def)
  define m2' where "m2' = (if index \<noteq> count s - 1 then m2 else m')"
  have step: "(if index \<noteq> count s1 - 1
               then memmove (data s1) (unat index + unat len) (data s1) (unat index)
                      ((count s1 - index) * sizeof_long) m'
               else Some m') = Some m2'"
    using mv by (simp add: m2'_def c1 i_def l_def)
  have ne: "index \<noteq> count s - 1" if "i + 1 < c"
  proof
    assume "index = count s - 1"
    then have "i = unat (count s - 1)" by (simp add: i_def)
    also have "\<dots> = c - 1" using that unat_sub_le [of 1 "count s"] by (simp add: c_def)
    finally show False using that by simp
  qed
  have bm2': "buffer_at (data s1) m2' = Some b2"
  proof (cases "index \<noteq> count s - 1")
    case True
    then show ?thesis using bm2 by (simp add: m2'_def)
  next
    case False
    with ne ine have "i = c" by auto
    with False keep b1 show ?thesis by (simp add: m2'_def)
  qed
  obtain s2' where s2': "structs m2' a = Some s2'" and sc2: "same_scalars s1 s2'"
    using s2 sc12 s1 by (cases "index \<noteq> count s - 1") (auto simp: m2'_def same_scalars_refl)
  then have d2: "data s2' = data s1" by (simp add: same_scalars_def)
  from store_cells_buffer [OF bm2', of i ys] ic l1 l2 ly
  obtain m3 where st: "store_cells (data s1) i ys m2' = Some m3"
      and bm3: "buffer_at (data s1) m3 = Some b3"
    by (auto simp: b3_def)
  have cp: "memcpy_from (data s2') (unat index) xs (len * sizeof_long) m2' = Some m3"
    using st src by (simp add: memcpy_from_def nl d2 i_def ys_def l_def)
  from memcpy_from_scalars [OF cp s2'] obtain s3 where s3: "structs m3 a = Some s3"
      and sc3: "same_scalars s2' s3"
    by auto
  with sc2 c1 have d3: "data s3 = data s1" and c3: "count s3 = count s"
    by (simp_all add: same_scalars_def)
  define m1 where "m1 = assign a (s3\<lparr>count := count s3 + len\<rparr>) m3"
  have guard: "\<not> (capacity s \<le> index \<or> len = 0 \<or> capacity s \<le> index + len)"
    using pre len by (simp add: not_le)
  have run: "mc_vector_inserts (Some a) index (Some xs) len m = Some (ucast len, m1)"
    using s guard e x s1 step s2' cp s3 by (simp add: mc_vector_inserts_def m1_def)
  have s1': "structs m1 a = Some (s3\<lparr>count := count s + len\<rparr>)"
    by (simp add: m1_def assign_def c3)
  have sz: "mc_vector_size (Some a) m1 = Some (count s + len, m1)"
    by (simp add: mc_vector_size_def s1')
  have bm1: "buffer_at (data s1) m1 = Some b3"
    using bm3 s3 by (simp add: m1_def buffer_at_assign_count)
  have tk: "take (c + l) b3 = take i b1 @ ys @ take (c - i) (drop i b1)"
    unfolding b3_def using ic l1 ly b2_def by (intro inserts_cells) simp_all
  have "take i b1 = take i (take c b1)" using ic by simp
  then have ti: "take i b1 = take i b" using ic t1 by simp
  have "take (c - i) (drop i b1) = drop i (take c b1)" by (simp add: drop_take)
  then have di: "take (c - i) (drop i b1) = take (c - i) (drop i b)" by (simp add: t1 drop_take)
  have f: "first_cells (c + l) a m1 = Some (take i b @ ys @ take (c - i) (drop i b))"
    using bm1 l1 l3 by (simp add: first_cells_def load_cells_def s1' d3 tk ti di)
  show ?thesis
    using run sz cl f by (auto simp: c_def i_def l_def ys_def)
qed

text \<open>
  An index above the count passes the check against the capacity too; then
  \<open>count - index\<close> wraps around and the \<open>memmove\<close> reads far outside the buffer.
\<close>

lemma pushed_nothing:
  "pushed [] = Some ((), assign 0 \<lparr>count = 0, capacity = 10, stack_buf = replicate 10 None,
                                    heap_buf = NULL, data = StackBuf 0\<rparr> (init_machine\<lparr>brk := 1\<rparr>))"
  by (simp add: pushed_def after_def mc_vector_make_def malloc_struct_def alloc_decide_def
      init_machine_def MC_VECTOR_BUFSIZE_def fresh_stack_buf_def assign_def)

lemma inserts_above_count_undefined:
  "ret (after (pushed []) (mc_vector_inserts (Some 0) 3 (Some [7, 8]) 2)) = None"
  by (simp add: pushed_nothing after_def ret_def mc_vector_inserts_def assign_def
      vec_ensure_capacity_def memmove_def load_cells_def buffer_at_def sizeof_long_def)

subsection \<open>Allocation failure\<close>

text \<open>
  When the growth hook fails, the callers return 0 with \<open>errno = ENOMEM\<close>, and the
  containers and arrays of the store are untouched; a resize that returns 0 leaves them
  untouched too.
\<close>

lemma realloc_failure:
  "realloc p n m = Some (NULL, m1) \<Longrightarrow> same_memory m m1 \<and> errno m1 = errno m"
  by (cases p)
     (auto simp: realloc_def malloc_def alloc_decide_def same_memory_def Let_def
       split: list.splits if_splits option.splits)

lemma malloc_failure:
  "malloc n m = (NULL, m1) \<Longrightarrow> same_memory m m1 \<and> errno m1 = errno m"
  by (auto simp: malloc_def alloc_decide_def same_memory_def Let_def split: list.splits if_splits)

lemma ensure_capacity_failure:
  assumes "vec_ensure_capacity (Some a) len m = Some (0, m1)"
  shows "same_memory m m1 \<and> errno m1 = errno m"
  using assms
  by (auto simp: vec_ensure_capacity_def bind_eq_Some_conv split: if_splits dest: realloc_failure)

proposition growth_failure_reports_ENOMEM:
  assumes e: "vec_ensure_capacity (Some a) len m = Some (0, m1)"
      and s: "structs m a = Some s"
  shows "(len = 1 \<longrightarrow> mc_vector_push (Some a) val m = Some (0, set_errno ENOMEM m1))
       \<and> (len = 1 \<and> index < count s \<longrightarrow>
            mc_vector_insert (Some a) index val m = Some (0, set_errno ENOMEM m1))
       \<and> (len \<noteq> 0 \<and> index < capacity s \<and> index + len < capacity s \<longrightarrow>
            mc_vector_inserts (Some a) index (Some xs) len m = Some (0, set_errno ENOMEM m1))
       \<and> same_memory m (set_errno ENOMEM m1)"
  using e s ensure_capacity_failure [OF e]
  by (auto simp: mc_vector_push_def mc_vector_insert_def mc_vector_inserts_def same_memory_def
      set_errno_def)

proposition resize_failure_unchanged:
  assumes "mc_vector_resize (Some a) newSize m = Some (0, m')"
  shows "same_memory m m'"
  using assms
  by (auto simp: mc_vector_resize_def bind_eq_Some_conv same_memory_def set_errno_def Let_def
      split: if_splits prod.splits dest!: realloc_failure malloc_failure)

subsection \<open>Calls that leave the buffer full\<close>

text \<open>
  The filled constructor with \<open>capacity = length\<close> at or above \<open>MC_VECTOR_BUFSIZE\<close>,
  a resize to \<open>MC_VECTOR_BUFSIZE\<close>, and a shrink of an allocated container all end with
  \<open>count = capacity\<close>.
\<close>

lemma fill_loop_scalars:
  "fill_loop a i bound val m = Some m' \<Longrightarrow> structs m b = Some s \<Longrightarrow>
   \<exists>s'. structs m' b = Some s' \<and> same_scalars s s'"
proof (induction a i bound val m arbitrary: s rule: fill_loop.induct)
  case (1 a i bound val m)
  show ?case
  proof (cases "i < bound")
    case False
    with "1.prems" show ?thesis
      by (simp add: fill_loop.simps same_scalars_refl)
  next
    case True
    with "1.prems"(1) obtain sa m1 where
        sa: "structs m a = Some sa"
        and st: "store_cell (data sa) (unat i) (Some val) m = Some m1"
        and rec: "fill_loop a (i + 1) bound val m1 = Some m'"
      by (subst (asm) fill_loop.simps) (auto split: option.splits)
    from store_cell_scalars [OF st "1.prems"(2)] obtain s1 where
        s1: "structs m1 b = Some s1" and sc1: "same_scalars s s1"
      by auto
    from "1.IH" [OF True sa st rec s1] obtain s' where
        "structs m' b = Some s'" and "same_scalars s1 s'"
      by auto
    with sc1 show ?thesis by (auto simp: same_scalars_def)
  qed
qed

proposition make_filled_to_capacity_is_full:
  assumes ok: "mc_vector_make_filled n n val m = Some (Some a, m')"
      and n: "MC_VECTOR_BUFSIZE \<le> n"
  shows "buffer_full a m'"
proof -
  from ok obtain m1 m2 s2 where
      mk: "mc_vector_make n m = Some (Some a, m1)"
      and fl: "fill_loop a 0 n val m1 = Some m2"
      and s2: "structs m2 a = Some s2"
      and m': "m' = assign a (s2\<lparr>count := n\<rparr>) m2"
    by (auto simp: mc_vector_make_filled_def bind_eq_Some_conv split: if_splits option.splits)
  from mk n obtain s1 where s1: "structs m1 a = Some s1" and c1: "capacity s1 = n"
    by (auto simp: mc_vector_make_def malloc_struct_def malloc_def alloc_decide_def assign_def
        set_errno_def Let_def split: if_splits list.splits prod.splits)
  from fill_loop_scalars [OF fl s1] s2 have "same_scalars s1 s2" by auto
  with c1 show ?thesis
    by (simp add: buffer_full_def m' assign_def same_scalars_def)
qed

proposition resize_to_bufsize_is_full:
  assumes wf: "well_formed a m"
      and ok: "mc_vector_resize (Some a) MC_VECTOR_BUFSIZE m = Some (r, m')"
      and r: "r \<noteq> 0"
  shows "buffer_full a m' \<and> mc_vector_is_stack (Some a) m' = Some (1, m')"
proof -
  from wf obtain s where s: "structs m a = Some s"
    by (auto simp: well_formed_def split: option.splits)
  from resize_to_inline [OF wf s ok r] show ?thesis
    by (auto simp: buffer_full_def mc_vector_capacity_def mc_vector_size_def bind_eq_Some_conv)
qed

proposition shrink_allocated_is_full:
  assumes wf: "well_formed a m"
      and s: "structs m a = Some s"
      and le: "count s \<le> capacity s"
      and big: "MC_VECTOR_BUFSIZE < count s"
      and fit: "unat (count s) < 2 ^ 61"
      and ok: "mc_vector_shrink (Some a) m = Some (r, m')"
      and r: "r \<noteq> 0"
  shows "buffer_full a m' \<and> mc_vector_is_stack (Some a) m' = Some (0, m')"
proof -
  from ok s have "mc_vector_resize (Some a) (count s) m = Some (r, m')"
    by (simp add: mc_vector_shrink_def)
  from resize_to_allocated [OF wf s le this r big fit] show ?thesis
    by (auto simp: buffer_full_def mc_vector_capacity_def mc_vector_size_def bind_eq_Some_conv)
qed

subsection \<open>A push from a count above the capacity\<close>

text \<open>
  \<open>mc_vector_resize\<close> with a new size above \<open>MC_VECTOR_BUFSIZE\<close> and below the count
  does not reset the count, unlike its branch for the small sizes: the container is left
  outside the invariant \<open>count \<le> capacity\<close>. The statements on growth below start from
  that invariant; without it the growth to \<open>capacity * 2 + 1\<close> cells need not make
  room, as with count 22 and capacity 11.
\<close>

lemma push_from_count_above_capacity:
  "ret (after filled_22 (mc_vector_resize (Some 0) 11)) = Some 1
   \<and> ret (after (after filled_22 (mc_vector_resize (Some 0) 11)) (mc_vector_push (Some 0) 1)) = Some 1
   \<and> ret (after (after (after filled_22 (mc_vector_resize (Some 0) 11)) (mc_vector_push (Some 0) 1))
            (mc_vector_size (Some 0))) = Some 23
   \<and> ret (after (after (after filled_22 (mc_vector_resize (Some 0) 11)) (mc_vector_push (Some 0) 1))
            (mc_vector_capacity (Some 0))) = Some 23"
  by code_simp

section \<open>Properties\<close>

text \<open>
  C1 (Scenario A), as claimed: ten pushes after \<open>mc_vector_make (5)\<close> leave the container
  inline. They do not: \<open>vec_ensure_capacity\<close> grows as soon as \<open>count + 1\<close> reaches the
  capacity, so the tenth push moves the container to an allocated array of 21 cells and
  \<open>mc_vector_is_stack\<close> returns 0.
\<close>

theorem ten_pushes_are_not_inline:
  "ret (after (pushed [1, 2, 3, 4, 5, 6, 7, 8, 9, 10]) (mc_vector_size (Some 0))) = Some 10
   \<and> ret (after (pushed [1, 2, 3, 4, 5, 6, 7, 8, 9, 10]) (mc_vector_is_stack (Some 0))) = Some 0
   \<and> ret (after (pushed [1, 2, 3, 4, 5, 6, 7, 8, 9, 10]) (mc_vector_is_stack (Some 0))) \<noteq> Some 1
   \<and> ret (after (pushed [1, 2, 3, 4, 5, 6, 7, 8, 9, 10]) (mc_vector_capacity (Some 0))) = Some 21"
  by code_simp

text \<open>
  C1 (Scenario A), amended: a container constructed with requested capacity 5 reports
  capacity 10; after 9 pushes of any values it is still inline with count 9; the tenth push
  succeeds and moves it to the allocated array, with capacity 21 and count 10; one further
  push succeeds and leaves capacity 21 and count 11.
\<close>

theorem scenario_A_growth_at_tenth_push:
  "ret (mc_vector_make 5 init_machine) = Some (Some 0)
   \<and> ret (after (mc_vector_make 5 init_machine) (mc_vector_capacity (Some 0))) = Some 10
   \<and> ret (after (pushed [x1, x2, x3, x4, x5, x6, x7, x8, x9]) (mc_vector_is_stack (Some 0))) = Some 1
   \<and> ret (after (pushed [x1, x2, x3, x4, x5, x6, x7, x8, x9]) (mc_vector_size (Some 0))) = Some 9
   \<and> ret (after (pushed [x1, x2, x3, x4, x5, x6, x7, x8, x9]) (mc_vector_capacity (Some 0))) = Some 10
   \<and> ret (after (pushed [x1, x2, x3, x4, x5, x6, x7, x8, x9]) (mc_vector_push (Some 0) x10)) = Some 1
   \<and> ret (after (pushed [x1, x2, x3, x4, x5, x6, x7, x8, x9, x10]) (mc_vector_is_stack (Some 0))) = Some 0
   \<and> ret (after (pushed [x1, x2, x3, x4, x5, x6, x7, x8, x9, x10]) (mc_vector_size (Some 0))) = Some 10
   \<and> ret (after (pushed [x1, x2, x3, x4, x5, x6, x7, x8, x9, x10]) (mc_vector_capacity (Some 0))) = Some 21
   \<and> ret (after (pushed [x1, x2, x3, x4, x5, x6, x7, x8, x9, x10]) (mc_vector_push (Some 0) x11)) = Some 1
   \<and> ret (after (pushed [x1, x2, x3, x4, x5, x6, x7, x8, x9, x10, x11]) (mc_vector_is_stack (Some 0))) = Some 0
   \<and> ret (after (pushed [x1, x2, x3, x4, x5, x6, x7, x8, x9, x10, x11]) (mc_vector_size (Some 0))) = Some 11
   \<and> ret (after (pushed [x1, x2, x3, x4, x5, x6, x7, x8, x9, x10, x11]) (mc_vector_capacity (Some 0))) = Some 21
   \<and> ret (after (pushed [x1, x2, x3, x4, x5, x6, x7, x8, x9, x10, x11])
            (mc_vector_to_array (Some 0) (Some (replicate 11 None))))
     = Some (11, Some (map Some [x1, x2, x3, x4, x5, x6, x7, x8, x9, x10, x11]))"
  by code_simp

text \<open>
  C2 (capacity floor). The header of vector.c says that a capacity cannot be smaller than
  \<open>MC_VECTOR_BUFSIZE\<close>, and \<open>mc_vector_make\<close> rounds a small request up to it; but
  \<open>mc_vector_from_array\<close> then overwrites the capacity with \<open>length * 2\<close>. For the array
  \<open>[1, 2, 3]\<close> the container reports capacity 6, below the floor of 10.
\<close>

theorem from_array_capacity_below_floor:
  "ret (mc_vector_from_array (Some [1, 2, 3]) 3 init_machine) = Some (Some 0)
   \<and> ret (after (mc_vector_from_array (Some [1, 2, 3]) 3 init_machine) (mc_vector_capacity (Some 0))) = Some 6
   \<and> (6 :: size_t) < MC_VECTOR_BUFSIZE"
  by code_simp

text \<open>
  C3 (Insert then Remove). On the container \<open>[1, 2, 3]\<close>, \<open>mc_vector_insert\<close> at the last
  live index 2 hands over to \<open>mc_vector_push\<close>, so the value 9 lands behind the last
  element, at index 3, and not at index 2; \<open>mc_vector_remove\<close> at index 2 then takes out
  the old last element. Both calls return 1 and the content ends as \<open>[1, 2, 9]\<close>.
\<close>

theorem insert_last_then_remove_differs:
  "ret (after three_elems (mc_vector_to_array (Some 0) (Some [None, None, None])))
     = Some (3, Some [Some 1, Some 2, Some 3])
   \<and> ret (after three_elems (mc_vector_insert (Some 0) 2 9)) = Some 1
   \<and> ret (after (after three_elems (mc_vector_insert (Some 0) 2 9))
            (mc_vector_to_array (Some 0) (Some [None, None, None, None])))
     = Some (4, Some [Some 1, Some 2, Some 3, Some 9])
   \<and> ret (after (after three_elems (mc_vector_insert (Some 0) 2 9)) (mc_vector_remove (Some 0) 2))
     = Some 1
   \<and> ret (after (after (after three_elems (mc_vector_insert (Some 0) 2 9)) (mc_vector_remove (Some 0) 2))
            (mc_vector_to_array (Some 0) (Some [None, None, None])))
     = Some (3, Some [Some 1, Some 2, Some 9])"
  by code_simp

text \<open>
  C4 (Swap). \<open>mc_vector_swap\<close> exchanges \<open>count\<close>, \<open>capacity\<close> and \<open>data\<close>, but not
  \<open>heap_buf\<close>. Take an inline container at address 0 and an allocated one at address 1.
  After the swap the first one reads the allocated array of the second, yet
  \<open>mc_vector_is_stack\<close> answers 1 for it (the other container answered 0 before); the
  array still belongs to the second container, so freeing the second container leaves the
  first one with a dangling \<open>data\<close> pointer, and reading through it is undefined.
\<close>

theorem swap_keeps_heap_buf:
  "ret (after inline_and_allocated (mc_vector_is_stack (Some 0))) = Some 1
   \<and> ret (after inline_and_allocated (mc_vector_is_stack (Some 1))) = Some 0
   \<and> ret (after inline_and_allocated (mc_vector_swap (Some 0) (Some 1))) = Some 1
   \<and> ret (after (after inline_and_allocated (mc_vector_swap (Some 0) (Some 1)))
            (mc_vector_get (Some 0) 0 (Some None))) = Some (1, Some (Some 2))
   \<and> ret (after (after inline_and_allocated (mc_vector_swap (Some 0) (Some 1)))
            (mc_vector_is_stack (Some 0))) = Some 1
   \<and> ret (after (after (after inline_and_allocated (mc_vector_swap (Some 0) (Some 1)))
                   (mc_vector_free (Some 1)))
            (mc_vector_get (Some 0) 0 (Some None))) = None"
  by code_simp

text \<open>
  C5 (InsertMany). On the container \<open>[1, 2, 3]\<close> (capacity 10), inserting the two
  elements \<open>[7, 8]\<close> at index 2 meets the preconditions (2 + 2 < 10, length 2, source not
  null). The index is \<open>count - 1\<close>, so the tail is not shifted: the call returns 2 and
  sets the count to 5, but the live element 3 is overwritten and the last live cell is
  indeterminate.
\<close>

theorem inserts_at_last_overwrites:
  "ret (after three_elems (mc_vector_capacity (Some 0))) = Some 10
   \<and> ret (after three_elems (mc_vector_inserts (Some 0) 2 (Some [7, 8]) 2)) = Some 2
   \<and> ret (after (after three_elems (mc_vector_inserts (Some 0) 2 (Some [7, 8]) 2))
            (mc_vector_size (Some 0))) = Some 5
   \<and> ret (after (after three_elems (mc_vector_inserts (Some 0) 2 (Some [7, 8]) 2))
            (mc_vector_to_array (Some 0) (Some [None, None, None, None, None])))
     = Some (5, Some [Some 1, Some 2, Some 7, Some 8, None])"
  by code_simp

text \<open>
  C6 (allocation failure). When \<open>malloc\<close> fails in \<open>mc_vector_resize\<close> on an inline
  container, the call returns 0 and leaves the container as it was, but sets \<open>errno\<close> to
  \<open>EINVAL\<close>; the header promises \<open>ENOMEM\<close>, and the sibling branch, where \<open>realloc\<close>
  fails on an allocated container, does set \<open>ENOMEM\<close>.
\<close>

theorem resize_malloc_failure_sets_EINVAL:
  "ret (after three_elems (with_alloc_plan [False] (mc_vector_resize (Some 0) 20))) = Some 0
   \<and> errno_after (after three_elems (with_alloc_plan [False] (mc_vector_resize (Some 0) 20)))
     = Some (Some EINVAL)
   \<and> ret (after (after three_elems (with_alloc_plan [False] (mc_vector_resize (Some 0) 20)))
            (mc_vector_to_array (Some 0) (Some [None, None, None])))
     = Some (3, Some [Some 1, Some 2, Some 3])
   \<and> ret (after (after three_elems (with_alloc_plan [False] (mc_vector_resize (Some 0) 20)))
            (mc_vector_capacity (Some 0))) = Some 10
   \<and> ret (after inline_and_allocated (with_alloc_plan [False] (mc_vector_resize (Some 1) 30))) = Some 0
   \<and> errno_after (after inline_and_allocated (with_alloc_plan [False] (mc_vector_resize (Some 1) 30)))
     = Some (Some ENOMEM)"
  by code_simp




text \<open>
  C9 (count below capacity after growth), as claimed: a buffer with \<open>count = capacity\<close> is
  reached only through the filled constructor or the shrink branch of \<open>mc_vector_resize\<close>.
  It is reached through \<open>mc_vector_shrink\<close> too, and through \<open>mc_vector_resize\<close> to
  exactly the count, on an allocated container: the container of eleven elements in an
  allocated buffer of 21 cells takes the other branch of \<open>mc_vector_resize\<close>
  (\<open>11 > MC_VECTOR_BUFSIZE\<close>) and stays allocated, with count 11 and capacity 11.
\<close>

theorem shrink_allocated_fills_buffer:
  "ret (mc_vector_is_stack (Some 0) eleven_allocated) = Some 0
   \<and> ret (mc_vector_size (Some 0) eleven_allocated) = Some 11
   \<and> ret (mc_vector_capacity (Some 0) eleven_allocated) = Some 21
   \<and> MC_VECTOR_BUFSIZE < (11 :: size_t)
   \<and> ret (mc_vector_shrink (Some 0) eleven_allocated) = Some 1
   \<and> ret (after (mc_vector_shrink (Some 0) eleven_allocated) (mc_vector_is_stack (Some 0))) = Some 0
   \<and> ret (after (mc_vector_shrink (Some 0) eleven_allocated) (mc_vector_size (Some 0))) = Some 11
   \<and> ret (after (mc_vector_shrink (Some 0) eleven_allocated) (mc_vector_capacity (Some 0))) = Some 11
   \<and> ret (mc_vector_resize (Some 0) 11 eleven_allocated) = Some 1
   \<and> ret (after (mc_vector_resize (Some 0) 11 eleven_allocated) (mc_vector_size (Some 0))) = Some 11
   \<and> ret (after (mc_vector_resize (Some 0) 11 eleven_allocated) (mc_vector_capacity (Some 0))) = Some 11"
  by code_simp

text \<open>
  C10 (null containers). \<open>mc_vector_to_array\<close>, \<open>mc_vector_fill\<close> and \<open>mc_vector_shrink\<close>
  read \<open>vec->count\<close> to build the arguments of the function they delegate to, before any
  test of \<open>vec\<close>: with a null container the program dereferences a null pointer (the
  outcome \<open>None\<close>) and \<open>errno\<close> is never set to \<open>EFAULT\<close>. Every other function that
  takes a container tests it first and returns normally (setting \<open>EFAULT\<close>, except for
  \<open>mc_vector_get_unchecked\<close> and \<open>mc_vector_free\<close>, which have no error channel).
\<close>

theorem null_container_handling:
  "mc_vector_to_array None buffer m = None
   \<and> mc_vector_fill None val m = None
   \<and> mc_vector_shrink None m = None
   \<and> mc_vector_to_array (Some a) buffer m =
       (case structs m a of None \<Rightarrow> None | Some s \<Rightarrow> mc_vector_extract (Some a) buffer 0 (count s) m)
   \<and> mc_vector_fill (Some a) val m =
       (case structs m a of None \<Rightarrow> None | Some s \<Rightarrow> mc_vector_fill_range (Some a) 0 (count s) val m)
   \<and> mc_vector_shrink (Some a) m =
       (case structs m a of None \<Rightarrow> None | Some s \<Rightarrow> mc_vector_resize (Some a) (count s) m)
   \<and> mc_vector_extract None buffer index len m = Some ((0, buffer), set_errno EFAULT m)
   \<and> mc_vector_fill_range None index len val m = Some (0, set_errno EFAULT m)
   \<and> mc_vector_resize None newSize m = Some (0, set_errno EFAULT m)
   \<and> mc_vector_clone None m = Some (None, set_errno EFAULT m)
   \<and> mc_vector_free None m = Some ((), m)
   \<and> mc_vector_get None index out m = Some ((0, out), set_errno EFAULT m)
   \<and> mc_vector_get_unchecked None index m = Some (Some LONG_MAX, m)
   \<and> mc_vector_set None index val m = Some (0, set_errno EFAULT m)
   \<and> mc_vector_size None m = Some (0, set_errno EFAULT m)
   \<and> mc_vector_capacity None m = Some (0, set_errno EFAULT m)
   \<and> mc_vector_empty None m = Some (1, set_errno EFAULT m)
   \<and> mc_vector_is_stack None m = Some (0, set_errno EFAULT m)
   \<and> mc_vector_push None val m = Some (0, set_errno EFAULT m)
   \<and> mc_vector_pop None m = Some (Some LONG_MIN, set_errno EFAULT m)
   \<and> mc_vector_insert None index val m = Some (0, set_errno EFAULT m)
   \<and> mc_vector_inserts None index src len m = Some (0, set_errno EFAULT m)
   \<and> mc_vector_remove None index m = Some (0, set_errno EFAULT m)
   \<and> mc_vector_erase None index len m = Some (0, set_errno EFAULT m)
   \<and> mc_vector_swap None vec2 m = Some (0, set_errno EFAULT m)
   \<and> mc_vector_swap vec1 None m = Some (0, set_errno EFAULT m)
   \<and> mc_vector_clear None m = Some (0, set_errno EFAULT m)"
  by (simp add: mc_vector_to_array_def mc_vector_fill_def mc_vector_shrink_def
      mc_vector_extract_def mc_vector_fill_range_def mc_vector_resize_def mc_vector_clone_def
      mc_vector_free_def mc_vector_get_def mc_vector_get_unchecked_def mc_vector_set_def
      mc_vector_size_def mc_vector_capacity_def mc_vector_empty_def mc_vector_is_stack_def
      mc_vector_push_def mc_vector_pop_def mc_vector_insert_def mc_vector_inserts_def
      mc_vector_remove_def mc_vector_erase_def mc_vector_swap_def mc_vector_clear_def
      split: option.split)

text \<open>
  C9 (count below capacity after growth), amended. For a container whose capacity is not 0
  and whose count does not exceed the capacity, when the new capacity \<open>capacity * 2 + n\<close>
  for the \<open>n\<close> added elements does not overflow \<open>size_t\<close>: after a successful
  \<open>mc_vector_push\<close>, \<open>mc_vector_insert\<close> or \<open>mc_vector_inserts\<close> (one that returns a
  value other than 0) the count is strictly less than the capacity. A buffer with
  \<open>count = capacity\<close> is reachable through the filled constructor (capacity equal to the
  length, at or above \<open>MC_VECTOR_BUFSIZE\<close>), through the shrink branch of
  \<open>mc_vector_resize\<close> (new size \<open>MC_VECTOR_BUFSIZE\<close>), and through \<open>mc_vector_shrink\<close>
  or \<open>mc_vector_resize\<close> to exactly the count on an allocated container: every such
  successful call ends with \<open>count = capacity\<close>, and each of them does succeed on the
  containers named in the last eleven conjuncts.
\<close>

theorem growth_leaves_room:
  "(structs m a = Some s \<and> count s \<le> capacity s \<and> 0 < capacity s
      \<and> 2 * unat (capacity s) + 1 < 2 ^ 64
      \<and> mc_vector_push (Some a) val m = Some (r1, m1) \<and> r1 \<noteq> 0 \<longrightarrow> has_room a m1)
   \<and> (structs m a = Some s \<and> count s \<le> capacity s \<and> 0 < capacity s
      \<and> 2 * unat (capacity s) + 1 < 2 ^ 64
      \<and> mc_vector_insert (Some a) index val m = Some (r2, m2) \<and> r2 \<noteq> 0 \<longrightarrow> has_room a m2)
   \<and> (structs m a = Some s \<and> count s \<le> capacity s \<and> 0 < capacity s
      \<and> 2 * unat (capacity s) + unat len < 2 ^ 64
      \<and> mc_vector_inserts (Some a) index (Some xs) len m = Some (r3, m3) \<and> r3 \<noteq> 0 \<longrightarrow> has_room a m3)
   \<and> (MC_VECTOR_BUFSIZE \<le> n \<and> mc_vector_make_filled n n val m = Some (Some a, m4) \<longrightarrow> buffer_full a m4)
   \<and> (well_formed a m \<and> mc_vector_resize (Some a) MC_VECTOR_BUFSIZE m = Some (r5, m5) \<and> r5 \<noteq> 0 \<longrightarrow>
        buffer_full a m5 \<and> mc_vector_is_stack (Some a) m5 = Some (1, m5))
   \<and> (well_formed a m \<and> structs m a = Some s \<and> count s \<le> capacity s
      \<and> MC_VECTOR_BUFSIZE < count s \<and> unat (count s) < 2 ^ 61
      \<and> mc_vector_shrink (Some a) m = Some (r6, m6) \<and> r6 \<noteq> 0 \<longrightarrow>
        buffer_full a m6 \<and> mc_vector_is_stack (Some a) m6 = Some (0, m6))
   \<and> (well_formed a m \<and> structs m a = Some s \<and> count s \<le> capacity s
      \<and> MC_VECTOR_BUFSIZE < count s \<and> unat (count s) < 2 ^ 61
      \<and> mc_vector_resize (Some a) (count s) m = Some (r7, m7) \<and> r7 \<noteq> 0 \<longrightarrow>
        buffer_full a m7 \<and> mc_vector_is_stack (Some a) m7 = Some (0, m7))
   \<and> ret filled_22 = Some (Some 0)
   \<and> ret (after filled_22 (mc_vector_size (Some 0))) = Some 22
   \<and> ret (after filled_22 (mc_vector_capacity (Some 0))) = Some 22
   \<and> ret (mc_vector_resize (Some 0) 10 eleven_allocated) = Some 1
   \<and> ret (after (mc_vector_resize (Some 0) 10 eleven_allocated) (mc_vector_is_stack (Some 0))) = Some 1
   \<and> ret (after (mc_vector_resize (Some 0) 10 eleven_allocated) (mc_vector_size (Some 0))) = Some 10
   \<and> ret (after (mc_vector_resize (Some 0) 10 eleven_allocated) (mc_vector_capacity (Some 0))) = Some 10
   \<and> ret (mc_vector_shrink (Some 0) eleven_allocated) = Some 1
   \<and> ret (after (mc_vector_shrink (Some 0) eleven_allocated) (mc_vector_is_stack (Some 0))) = Some 0
   \<and> ret (after (mc_vector_shrink (Some 0) eleven_allocated) (mc_vector_size (Some 0))) = Some 11
   \<and> ret (after (mc_vector_shrink (Some 0) eleven_allocated) (mc_vector_capacity (Some 0))) = Some 11"
proof -
  have push: "structs m a = Some s \<and> count s \<le> capacity s \<and> 0 < capacity s
      \<and> 2 * unat (capacity s) + 1 < 2 ^ 64
      \<and> mc_vector_push (Some a) val m = Some (r1, m1) \<and> r1 \<noteq> 0 \<longrightarrow> has_room a m1"
    by (intro impI, elim conjE) (rule push_has_room)
  have ins: "structs m a = Some s \<and> count s \<le> capacity s \<and> 0 < capacity s
      \<and> 2 * unat (capacity s) + 1 < 2 ^ 64
      \<and> mc_vector_insert (Some a) index val m = Some (r2, m2) \<and> r2 \<noteq> 0 \<longrightarrow> has_room a m2"
    by (intro impI, elim conjE) (rule insert_has_room)
  have inss: "structs m a = Some s \<and> count s \<le> capacity s \<and> 0 < capacity s
      \<and> 2 * unat (capacity s) + unat len < 2 ^ 64
      \<and> mc_vector_inserts (Some a) index (Some xs) len m = Some (r3, m3) \<and> r3 \<noteq> 0 \<longrightarrow> has_room a m3"
    by (intro impI, elim conjE) (rule inserts_has_room)
  have filled: "MC_VECTOR_BUFSIZE \<le> n \<and> mc_vector_make_filled n n val m = Some (Some a, m4) \<longrightarrow> buffer_full a m4"
    by (intro impI, elim conjE) (rule make_filled_to_capacity_is_full)
  have small: "well_formed a m \<and> mc_vector_resize (Some a) MC_VECTOR_BUFSIZE m = Some (r5, m5) \<and> r5 \<noteq> 0 \<longrightarrow>
        buffer_full a m5 \<and> mc_vector_is_stack (Some a) m5 = Some (1, m5)"
    by (intro impI, elim conjE) (rule resize_to_bufsize_is_full)
  have shr: "well_formed a m \<and> structs m a = Some s \<and> count s \<le> capacity s
      \<and> MC_VECTOR_BUFSIZE < count s \<and> unat (count s) < 2 ^ 61
      \<and> mc_vector_shrink (Some a) m = Some (r6, m6) \<and> r6 \<noteq> 0 \<longrightarrow>
        buffer_full a m6 \<and> mc_vector_is_stack (Some a) m6 = Some (0, m6)"
    by (intro impI, elim conjE) (rule shrink_allocated_is_full)
  have rsz: "well_formed a m \<and> structs m a = Some s \<and> count s \<le> capacity s
      \<and> MC_VECTOR_BUFSIZE < count s \<and> unat (count s) < 2 ^ 61
      \<and> mc_vector_resize (Some a) (count s) m = Some (r7, m7) \<and> r7 \<noteq> 0 \<longrightarrow>
        buffer_full a m7 \<and> mc_vector_is_stack (Some a) m7 = Some (0, m7)"
  proof (intro impI, elim conjE)
    assume wf: "well_formed a m" and s: "structs m a = Some s" and le: "count s \<le> capacity s"
      and big: "MC_VECTOR_BUFSIZE < count s" and fit: "unat (count s) < 2 ^ 61"
      and ok: "mc_vector_resize (Some a) (count s) m = Some (r7, m7)" and r: "r7 \<noteq> 0"
    from ok s have "mc_vector_shrink (Some a) m = Some (r7, m7)"
      by (simp add: mc_vector_shrink_def)
    from shrink_allocated_is_full [OF wf s le big fit this r]
    show "buffer_full a m7 \<and> mc_vector_is_stack (Some a) m7 = Some (0, m7)" .
  qed
  have runs: "ret filled_22 = Some (Some 0)
   \<and> ret (after filled_22 (mc_vector_size (Some 0))) = Some 22
   \<and> ret (after filled_22 (mc_vector_capacity (Some 0))) = Some 22
   \<and> ret (mc_vector_resize (Some 0) 10 eleven_allocated) = Some 1
   \<and> ret (after (mc_vector_resize (Some 0) 10 eleven_allocated) (mc_vector_is_stack (Some 0))) = Some 1
   \<and> ret (after (mc_vector_resize (Some 0) 10 eleven_allocated) (mc_vector_size (Some 0))) = Some 10
   \<and> ret (after (mc_vector_resize (Some 0) 10 eleven_allocated) (mc_vector_capacity (Some 0))) = Some 10
   \<and> ret (mc_vector_shrink (Some 0) eleven_allocated) = Some 1
   \<and> ret (after (mc_vector_shrink (Some 0) eleven_allocated) (mc_vector_is_stack (Some 0))) = Some 0
   \<and> ret (after (mc_vector_shrink (Some 0) eleven_allocated) (mc_vector_size (Some 0))) = Some 11
   \<and> ret (after (mc_vector_shrink (Some 0) eleven_allocated) (mc_vector_capacity (Some 0))) = Some 11"
    by code_simp
  show ?thesis
    by (rule conjI [OF push conjI [OF ins conjI [OF inss conjI [OF filled conjI [OF small
          conjI [OF shr conjI [OF rsz runs]]]]]]])
qed

text \<open>
  The three growing calls on a container of nine elements with capacity 10; the filled
  constructor with capacity and length 22; the resize to \<open>MC_VECTOR_BUFSIZE\<close>, the shrink and
  the resize to 11 of a container of eleven elements in an allocated buffer of 21 cells.
\<close>

theorem growth_leaves_room_witness:
  "structs nine_inline 0 = Some (the (structs nine_inline 0))
   \<and> count (the (structs nine_inline 0)) = 9
   \<and> capacity (the (structs nine_inline 0)) = 10
   \<and> ret (mc_vector_push (Some 0) 10 nine_inline) = Some 1
   \<and> has_room 0 (snd (the (mc_vector_push (Some 0) 10 nine_inline)))
   \<and> ret (mc_vector_insert (Some 0) 4 10 nine_inline) = Some 1
   \<and> has_room 0 (snd (the (mc_vector_insert (Some 0) 4 10 nine_inline)))
   \<and> ret (mc_vector_inserts (Some 0) 4 (Some [10, 11]) 2 nine_inline) = Some 2
   \<and> has_room 0 (snd (the (mc_vector_inserts (Some 0) 4 (Some [10, 11]) 2 nine_inline)))
   \<and> ret (mc_vector_make_filled 22 22 7 init_machine) = Some (Some 0)
   \<and> buffer_full 0 (snd (the (mc_vector_make_filled 22 22 7 init_machine)))
   \<and> well_formed 0 eleven_allocated
   \<and> count (the (structs eleven_allocated 0)) = 11
   \<and> capacity (the (structs eleven_allocated 0)) = 21
   \<and> ret (mc_vector_resize (Some 0) MC_VECTOR_BUFSIZE eleven_allocated) = Some 1
   \<and> buffer_full 0 (snd (the (mc_vector_resize (Some 0) MC_VECTOR_BUFSIZE eleven_allocated)))
   \<and> ret (mc_vector_shrink (Some 0) eleven_allocated) = Some 1
   \<and> buffer_full 0 (snd (the (mc_vector_shrink (Some 0) eleven_allocated)))
   \<and> ret (mc_vector_resize (Some 0) 11 eleven_allocated) = Some 1
   \<and> buffer_full 0 (snd (the (mc_vector_resize (Some 0) 11 eleven_allocated)))"
proof -
  have s: "structs nine_inline 0 = Some (the (structs nine_inline 0))"
    by code_simp
  have c: "count (the (structs nine_inline 0)) = 9" "capacity (the (structs nine_inline 0)) = 10"
    by code_simp+
  have p: "ret (mc_vector_push (Some 0) 10 nine_inline) = Some 1"
    and i: "ret (mc_vector_insert (Some 0) 4 10 nine_inline) = Some 1"
    and j: "ret (mc_vector_inserts (Some 0) 4 (Some [10, 11]) 2 nine_inline) = Some 2"
    by code_simp+
  note g = growth_leaves_room [where m = nine_inline and a = 0 and s = "the (structs nine_inline 0)"
      and val = 10 and ?r1.0 = 1 and ?m1.0 = "snd (the (mc_vector_push (Some 0) 10 nine_inline))"
      and index = 4 and ?r2.0 = 1 and ?m2.0 = "snd (the (mc_vector_insert (Some 0) 4 10 nine_inline))"
      and xs = "[10, 11]" and len = 2 and ?r3.0 = 2
      and ?m3.0 = "snd (the (mc_vector_inserts (Some 0) 4 (Some [10, 11]) 2 nine_inline))"]
  have main: "has_room 0 (snd (the (mc_vector_push (Some 0) 10 nine_inline)))
      \<and> has_room 0 (snd (the (mc_vector_insert (Some 0) 4 10 nine_inline)))
      \<and> has_room 0 (snd (the (mc_vector_inserts (Some 0) 4 (Some [10, 11]) 2 nine_inline)))"
    using g ret_Some_eq [OF p] ret_Some_eq [OF i] ret_Some_eq [OF j] s c
    by simp
  have f: "ret (mc_vector_make_filled 22 22 7 init_machine) = Some (Some 0)"
    by code_simp
  note h = growth_leaves_room [where m = init_machine and a = 0 and n = 22 and val = 7
      and ?m4.0 = "snd (the (mc_vector_make_filled 22 22 7 init_machine))"]
  have filled: "buffer_full 0 (snd (the (mc_vector_make_filled 22 22 7 init_machine)))"
    using h ret_Some_eq [OF f] by (simp add: MC_VECTOR_BUFSIZE_def)
  have wf: "well_formed 0 eleven_allocated"
    by code_simp
  have s11: "structs eleven_allocated 0 = Some (the (structs eleven_allocated 0))"
    by code_simp
  have c11: "count (the (structs eleven_allocated 0)) = 11" "capacity (the (structs eleven_allocated 0)) = 21"
    by code_simp+
  have r10: "ret (mc_vector_resize (Some 0) MC_VECTOR_BUFSIZE eleven_allocated) = Some 1"
    and sh: "ret (mc_vector_shrink (Some 0) eleven_allocated) = Some 1"
    and r11: "ret (mc_vector_resize (Some 0) 11 eleven_allocated) = Some 1"
    by code_simp+
  note k = growth_leaves_room [where m = eleven_allocated and a = 0
      and s = "the (structs eleven_allocated 0)"
      and ?r5.0 = 1 and ?m5.0 = "snd (the (mc_vector_resize (Some 0) MC_VECTOR_BUFSIZE eleven_allocated))"
      and ?r6.0 = 1 and ?m6.0 = "snd (the (mc_vector_shrink (Some 0) eleven_allocated))"
      and ?r7.0 = 1 and ?m7.0 = "snd (the (mc_vector_resize (Some 0) 11 eleven_allocated))"]
  have routes: "buffer_full 0 (snd (the (mc_vector_resize (Some 0) MC_VECTOR_BUFSIZE eleven_allocated)))
      \<and> buffer_full 0 (snd (the (mc_vector_shrink (Some 0) eleven_allocated)))
      \<and> buffer_full 0 (snd (the (mc_vector_resize (Some 0) 11 eleven_allocated)))"
    using k wf s11 c11 ret_Some_eq [OF r10] ret_Some_eq [OF sh] ret_Some_eq [OF r11]
    by (simp add: MC_VECTOR_BUFSIZE_def)
  show ?thesis
    using main filled routes s c p i j f wf c11 r10 sh r11 by simp
qed



end
